theory Spec2Isabelle
  imports Main
begin

section \<open>Iterated local search over bitstring problems (sampling/ils.py, sampling/problems.py)\<close>

text \<open>
  The Python sources are embedded as HOL functions. Python exceptions are values of the
  type \<open>error\<close>, carried on the left of a sum; a loop that may run forever is a
  \<^theory_text>\<open>partial_function\<close> in the option monad, where \<open>None\<close> is "does not return".
  Python integers are \<open>int\<close>. \<open>copy.deepcopy\<close> is the identity on HOL values: nothing is
  shared, so every branch point of the source that copies a solution simply uses the value.

  Randomness is an oracle: a function \<open>rs :: nat \<Rightarrow> nat\<close> of raw draws, read at a position
  that is threaded through the calls as state. \<open>random.randint\<close> and \<open>random.shuffle\<close>
  consume draws from it, so every outcome of the generator is the behaviour under some
  oracle, and a statement for all oracles covers every run.
\<close>

subsection \<open>Exceptions\<close>

datatype error =
    IndexError | AssertionError | ValueError | NotImplementedError | TypeError
  | UnboundLocalError

subsection \<open>class Solution\<close>

text \<open>
  The attributes \<open>lst\<close>, \<open>fitness\<close> and \<open>invalid\<close> of the class, and the attribute
  \<open>weight\<close> that \<open>Knapsack.full_eval\<close> adds to the object (absent until then).
\<close>

record solution =
  lst :: "int list"
  fitness :: int
  invalid :: bool
  weight :: "int option"

text \<open>\<open>Solution()\<close>: the defaults of \<open>__init__\<close>.\<close>

definition Solution :: solution where
  "Solution = \<lparr>lst = [], fitness = 0, invalid = False, weight = None\<rparr>"

text \<open>\<open>xs[i]\<close> for an index \<open>i \<ge> 0\<close>: IndexError out of range.\<close>

definition py_get :: "'a list \<Rightarrow> nat \<Rightarrow> error + 'a" where
  "py_get xs i = (if i < length xs then Inr (xs ! i) else Inl IndexError)"

subsection \<open>The random oracle\<close>

text \<open>
  \<open>random.randint(a, b)\<close>: ValueError on an empty range, otherwise some value of
  \<open>a..b\<close>, taken from the next draw; returns the value and the next position.
\<close>

definition randint :: "(nat \<Rightarrow> nat) \<Rightarrow> nat \<Rightarrow> int \<Rightarrow> int \<Rightarrow> error + (int \<times> nat)" where
  "randint rs k a b =
     (if b < a then Inl ValueError
      else Inr (a + int (rs k mod nat (b - a + 1)), Suc k))"

text \<open>
  \<open>random.shuffle(x)\<close> is the library's loop
  \<^verbatim>\<open>for i in reversed(range(1, len(x))): j = randbelow(i + 1); x[i], x[j] = x[j], x[i]\<close>
\<close>

fun shuffle_loop :: "(nat \<Rightarrow> nat) \<Rightarrow> nat \<Rightarrow> 'a list \<Rightarrow> nat list \<Rightarrow> 'a list \<times> nat" where
  "shuffle_loop rs k xs [] = (xs, k)"
| "shuffle_loop rs k xs (i # is) =
     (let j = rs k mod (i + 1)
      in shuffle_loop rs (Suc k) (xs[i := xs ! j, j := xs ! i]) is)"

definition shuffle :: "(nat \<Rightarrow> nat) \<Rightarrow> nat \<Rightarrow> 'a list \<Rightarrow> 'a list \<times> nat" where
  "shuffle rs k xs = shuffle_loop rs k xs (rev [1..<length xs])"

subsection \<open>class ProblemInstance and its three subclasses\<close>

text \<open>
  The instance attributes: \<open>OneMax n\<close>; \<open>Knapsack n c items\<close>, each item a row of integers
  read from the file, column 1 the value and column 2 the weight; \<open>NumberPartitioning n a\<close>
  (the attributes \<open>k\<close> and \<open>seed\<close> are read by \<open>__init__\<close> and \<open>__str__\<close> only).
\<close>

datatype problem_instance =
    OneMax int
  | Knapsack int int "int list list"
  | NumberPartitioning int "int list"

fun n_of :: "problem_instance \<Rightarrow> int" where
  "n_of (OneMax n) = n"
| "n_of (Knapsack n c items) = n"
| "n_of (NumberPartitioning n a) = n"

text \<open>
  The abstract methods of \<open>ProblemInstance\<close>, and the methods each class body defines.
  A class can be instantiated only when it overrides every abstract method (\<open>ABC\<close>).
\<close>

definition abstract_methods :: "string list" where
  "abstract_methods =
     [''maximize'', ''full_eval'', ''has_flip_delta_eval'', ''flip_delta_eval'',
      ''flip_with_delta'', ''two_rnd_flips'']"

fun class_defines :: "problem_instance \<Rightarrow> string list" where
  "class_defines (OneMax n) =
     [''__init__'', ''full_eval'', ''has_flip_delta_eval'', ''flip_delta_eval'',
      ''flip_with_delta'', ''two_rnd_flips'']"
| "class_defines (Knapsack n c items) =
     [''__init__'', ''__str__'', ''maximize'', ''full_eval'', ''weight'',
      ''has_flip_delta_eval'', ''flip_delta_eval'', ''flip_with_delta'', ''two_rnd_flips'']"
| "class_defines (NumberPartitioning n a) =
     [''__init__'', ''__str__'', ''maximize'', ''full_eval'', ''has_flip_delta_eval'',
      ''flip_delta_eval'', ''flip_with_delta'', ''two_rnd_flips'']"

definition instantiable :: "problem_instance \<Rightarrow> bool" where
  "instantiable p = list_all (\<lambda>m. m \<in> set (class_defines p)) abstract_methods"

text \<open>
  What \<open>maximize()\<close> returns: \<open>Knapsack\<close> and \<open>NumberPartitioning\<close> return a bool;
  \<open>OneMax\<close> defines no \<open>maximize\<close>, so the call resolves to the body \<open>pass\<close> of
  \<open>ProblemInstance.maximize\<close>, which returns \<open>None\<close>.
\<close>

datatype pyval = PyNone | PyBool bool

fun truthy :: "pyval \<Rightarrow> bool" where
  "truthy PyNone = False"
| "truthy (PyBool b) = b"

fun maximize :: "problem_instance \<Rightarrow> pyval" where
  "maximize (OneMax n) = PyNone"
| "maximize (Knapsack n c items) = PyBool True"
| "maximize (NumberPartitioning n a) = PyBool False"

definition strictly_better :: "problem_instance \<Rightarrow> int \<Rightarrow> int \<Rightarrow> bool" where
  "strictly_better p a b = (if truthy (maximize p) then a > b else a < b)"

definition better_or_equal :: "problem_instance \<Rightarrow> int \<Rightarrow> int \<Rightarrow> bool" where
  "better_or_equal p a b = (if truthy (maximize p) then a \<ge> b else a \<le> b)"

fun has_flip_delta_eval :: "problem_instance \<Rightarrow> bool" where
  "has_flip_delta_eval (OneMax n) = True"
| "has_flip_delta_eval (Knapsack n c items) = False"
| "has_flip_delta_eval (NumberPartitioning n a) = False"

subsection \<open>full_eval\<close>

definition OneMax_full_eval :: "solution \<Rightarrow> solution" where
  "OneMax_full_eval sol = sol\<lparr>fitness := sum_list (lst sol), invalid := False\<rparr>"

text \<open>
  \<open>sum([sol.lst[i] * self.items[i][col] for i in range(l)])\<close>: the comprehension raises
  IndexError at the first row or column that is missing.
\<close>

fun Knapsack_terms :: "int list list \<Rightarrow> nat \<Rightarrow> int list \<Rightarrow> nat list \<Rightarrow> error + int list" where
  "Knapsack_terms items col xs [] = Inr []"
| "Knapsack_terms items col xs (i # is) =
     (case py_get items i of Inl e \<Rightarrow> Inl e
      | Inr row \<Rightarrow>
          (case py_get row col of Inl e \<Rightarrow> Inl e
           | Inr v \<Rightarrow>
               (case Knapsack_terms items col xs is of Inl e \<Rightarrow> Inl e
                | Inr ts \<Rightarrow> Inr (xs ! i * v # ts))))"

definition Knapsack_sum :: "int list list \<Rightarrow> nat \<Rightarrow> int list \<Rightarrow> error + int" where
  "Knapsack_sum items col xs =
     (case Knapsack_terms items col xs [0..<length xs] of Inl e \<Rightarrow> Inl e
      | Inr ts \<Rightarrow> Inr (sum_list ts))"

definition Knapsack_full_eval :: "int \<Rightarrow> int \<Rightarrow> int list list \<Rightarrow> solution \<Rightarrow> error + solution" where
  "Knapsack_full_eval n c items sol =
     (let l = length (lst sol) in
      if int l \<noteq> n then Inl AssertionError
      else
        (case Knapsack_sum items 2 (lst sol) of Inl e \<Rightarrow> Inl e
         | Inr w \<Rightarrow>
             (if w > c then Inr (sol\<lparr>fitness := 0, weight := Some w, invalid := False\<rparr>)
              else
                (case Knapsack_sum items 1 (lst sol) of Inl e \<Rightarrow> Inl e
                 | Inr f \<Rightarrow> Inr (sol\<lparr>fitness := f, weight := Some w, invalid := False\<rparr>)))))"

text \<open>
  \<open>sum([self.a[i] for i in range(l) if sol.lst[i] == v])\<close>: \<open>self.a[i]\<close> is read only at
  the selected positions.
\<close>

fun NumberPartitioning_terms :: "int list \<Rightarrow> int \<Rightarrow> int list \<Rightarrow> nat list \<Rightarrow> error + int list" where
  "NumberPartitioning_terms a v xs [] = Inr []"
| "NumberPartitioning_terms a v xs (i # is) =
     (if xs ! i = v then
        (case py_get a i of Inl e \<Rightarrow> Inl e
         | Inr y \<Rightarrow>
             (case NumberPartitioning_terms a v xs is of Inl e \<Rightarrow> Inl e
              | Inr ts \<Rightarrow> Inr (y # ts)))
      else NumberPartitioning_terms a v xs is)"

definition NumberPartitioning_cost :: "int list \<Rightarrow> int \<Rightarrow> int list \<Rightarrow> error + int" where
  "NumberPartitioning_cost a v xs =
     (case NumberPartitioning_terms a v xs [0..<length xs] of Inl e \<Rightarrow> Inl e
      | Inr ts \<Rightarrow> Inr (sum_list ts))"

definition NumberPartitioning_full_eval :: "int \<Rightarrow> int list \<Rightarrow> solution \<Rightarrow> error + solution" where
  "NumberPartitioning_full_eval n a sol =
     (let l = length (lst sol) in
      if int l \<noteq> n then Inl AssertionError
      else
        (case NumberPartitioning_cost a 0 (lst sol) of Inl e \<Rightarrow> Inl e
         | Inr cost1 \<Rightarrow>
             (case NumberPartitioning_cost a 1 (lst sol) of Inl e \<Rightarrow> Inl e
              | Inr cost2 \<Rightarrow>
                  Inr (sol\<lparr>fitness := (if cost1 > cost2 then cost1 - cost2 else cost2 - cost1),
                           invalid := False\<rparr>))))"

fun full_eval :: "problem_instance \<Rightarrow> solution \<Rightarrow> error + solution" where
  "full_eval (OneMax n) sol = Inr (OneMax_full_eval sol)"
| "full_eval (Knapsack n c items) sol = Knapsack_full_eval n c items sol"
| "full_eval (NumberPartitioning n a) sol = NumberPartitioning_full_eval n a sol"

subsection \<open>flip_delta_eval and flip_with_delta\<close>

definition OneMax_flip_delta_eval :: "solution \<Rightarrow> nat \<Rightarrow> error + (bool \<times> int)" where
  "OneMax_flip_delta_eval sol i =
     (case py_get (lst sol) i of Inl e \<Rightarrow> Inl e
      | Inr v \<Rightarrow> (let delta_fitness = (if v = 0 then 1 else - 1)
                  in Inr (delta_fitness > 0, delta_fitness)))"

fun flip_delta_eval :: "problem_instance \<Rightarrow> solution \<Rightarrow> nat \<Rightarrow> error + (bool \<times> int)" where
  "flip_delta_eval (OneMax n) sol i = OneMax_flip_delta_eval sol i"
| "flip_delta_eval (Knapsack n c items) sol i = Inl NotImplementedError"
| "flip_delta_eval (NumberPartitioning n a) sol i = Inl NotImplementedError"

definition OneMax_flip_with_delta :: "solution \<Rightarrow> nat \<Rightarrow> int \<Rightarrow> error + solution" where
  "OneMax_flip_with_delta sol i delta_fitness =
     (case py_get (lst sol) i of Inl e \<Rightarrow> Inl e
      | Inr v \<Rightarrow>
          Inr (sol\<lparr>fitness := fitness sol + delta_fitness,
                   lst := (lst sol)[i := (if v = 0 then 1 else 0)],
                   invalid := False\<rparr>))"

text \<open>
  \<open>NumberPartitioning.flip_with_delta\<close> is a static method of two parameters; called with
  the three arguments of the explorer it raises TypeError.
\<close>

fun flip_with_delta :: "problem_instance \<Rightarrow> solution \<Rightarrow> nat \<Rightarrow> int \<Rightarrow> error + solution" where
  "flip_with_delta (OneMax n) sol i d = OneMax_flip_with_delta sol i d"
| "flip_with_delta (Knapsack n c items) sol i d = Inl NotImplementedError"
| "flip_with_delta (NumberPartitioning n a) sol i d = Inl TypeError"

subsection \<open>two_rnd_flips\<close>

text \<open>
  The loop \<^verbatim>\<open>while j == i: j = random.randint(0, self.n - 1)\<close>, with \<open>j\<close> the loop
  variable. Nothing bounds the number of draws.
\<close>

partial_function (option) redraw ::
  "(nat \<Rightarrow> nat) \<Rightarrow> int \<Rightarrow> int \<Rightarrow> int \<Rightarrow> nat \<Rightarrow> (error + (int \<times> nat)) option" where
  "redraw rs n i j k =
     (if j = i then
        (case randint rs k 0 (n - 1) of Inl e \<Rightarrow> Some (Inl e)
         | Inr (j', k') \<Rightarrow> redraw rs n i j' k')
      else Some (Inr (j, k)))"

text \<open>The first three statements of every \<open>two_rnd_flips\<close>: draw \<open>i\<close>, then \<open>j\<close>.\<close>

definition draw_two :: "(nat \<Rightarrow> nat) \<Rightarrow> nat \<Rightarrow> int \<Rightarrow> (error + (nat \<times> nat \<times> nat)) option" where
  "draw_two rs k n =
     (case randint rs k 0 (n - 1) of Inl e \<Rightarrow> Some (Inl e)
      | Inr (i, k1) \<Rightarrow>
          (case redraw rs n i i k1 of None \<Rightarrow> None
           | Some (Inl e) \<Rightarrow> Some (Inl e)
           | Some (Inr (j, k2)) \<Rightarrow> Some (Inr (nat i, nat j, k2))))"

text \<open>\<^verbatim>\<open>sol.lst[i] = 0 if sol.lst[i] == 1 else 1\<close>\<close>

definition flip_at :: "int list \<Rightarrow> nat \<Rightarrow> error + int list" where
  "flip_at xs i =
     (case py_get xs i of Inl e \<Rightarrow> Inl e
      | Inr v \<Rightarrow> Inr (xs[i := (if v = 1 then 0 else 1)]))"

definition OneMax_two_flips :: "solution \<Rightarrow> nat \<Rightarrow> nat \<Rightarrow> error + solution" where
  "OneMax_two_flips sol i j =
     (case py_get (lst sol) i of Inl e \<Rightarrow> Inl e
      | Inr vi \<Rightarrow>
          (case py_get (lst sol) j of Inl e \<Rightarrow> Inl e
           | Inr vj \<Rightarrow>
               (let delta_fitness = (if vi = 0 then 1 else - 1) + (if vj = 0 then 1 else - 1)
                in (case flip_at (lst sol) i of Inl e \<Rightarrow> Inl e
                    | Inr xs1 \<Rightarrow>
                        (case flip_at xs1 j of Inl e \<Rightarrow> Inl e
                         | Inr xs2 \<Rightarrow>
                             Inr (sol\<lparr>fitness := fitness sol + delta_fitness, lst := xs2,
                                      invalid := False\<rparr>))))))"

definition full_eval_two_flips :: "problem_instance \<Rightarrow> solution \<Rightarrow> nat \<Rightarrow> nat \<Rightarrow> error + solution" where
  "full_eval_two_flips p sol i j =
     (case flip_at (lst sol) i of Inl e \<Rightarrow> Inl e
      | Inr xs1 \<Rightarrow>
          (case flip_at xs1 j of Inl e \<Rightarrow> Inl e
           | Inr xs2 \<Rightarrow> full_eval p (sol\<lparr>lst := xs2\<rparr>)))"

fun apply_two_flips :: "problem_instance \<Rightarrow> solution \<Rightarrow> nat \<Rightarrow> nat \<Rightarrow> error + solution" where
  "apply_two_flips (OneMax n) sol i j = OneMax_two_flips sol i j"
| "apply_two_flips (Knapsack n c items) sol i j = full_eval_two_flips (Knapsack n c items) sol i j"
| "apply_two_flips (NumberPartitioning n a) sol i j =
     full_eval_two_flips (NumberPartitioning n a) sol i j"

text \<open>\<open>two_rnd_flips\<close> returns the mutated solution and the oracle position.\<close>

definition two_rnd_flips ::
  "(nat \<Rightarrow> nat) \<Rightarrow> nat \<Rightarrow> problem_instance \<Rightarrow> solution \<Rightarrow> (error + (solution \<times> nat)) option" where
  "two_rnd_flips rs k p sol =
     (case draw_two rs k (n_of p) of None \<Rightarrow> None
      | Some (Inl e) \<Rightarrow> Some (Inl e)
      | Some (Inr (i, j, k')) \<Rightarrow>
          (case apply_two_flips p sol i j of Inl e \<Rightarrow> Some (Inl e)
           | Inr sol' \<Rightarrow> Some (Inr (sol', k'))))"

subsection \<open>flip_neighbour_explorer\<close>

text \<open>The local variables of the \<open>for\<close> loop; \<open>delta_fitness\<close> is unbound before the first pass.\<close>

record explorer_state =
  improved :: bool
  delta_fitness :: "int option"
  best_delta_fitness :: int
  best_sol :: solution
  best_i :: nat

text \<open>The \<open>for i in indices\<close> loop (lines 77 to 96); \<open>break\<close> returns the state.\<close>

fun explore_loop ::
  "problem_instance \<Rightarrow> solution \<Rightarrow> bool \<Rightarrow> nat list \<Rightarrow> explorer_state \<Rightarrow> error + explorer_state" where
  "explore_loop p sol first_improvement [] st = Inr st"
| "explore_loop p sol first_improvement (i # is) st =
     (if has_flip_delta_eval p then
        (case flip_delta_eval p sol i of Inl e \<Rightarrow> Inl e
         | Inr (imp, d) \<Rightarrow>
             (let st1 = st\<lparr>improved := imp, delta_fitness := Some d\<rparr> in
              if imp then
                (let st2 = (if strictly_better p d (best_delta_fitness st1)
                            then st1\<lparr>best_delta_fitness := d, best_i := i\<rparr> else st1)
                 in if first_improvement then Inr st2
                    else explore_loop p sol first_improvement is st2)
              else explore_loop p sol first_improvement is st1))
      else
        (case flip_at (lst sol) i of Inl e \<Rightarrow> Inl e
         | Inr xs \<Rightarrow>
             (case full_eval p (sol\<lparr>lst := xs\<rparr>) of Inl e \<Rightarrow> Inl e
              | Inr new_sol \<Rightarrow>
                  (if strictly_better p (fitness new_sol) (fitness sol) then
                     (let st1 = st\<lparr>improved := True\<rparr>;
                          st2 = (if strictly_better p (fitness new_sol) (fitness (best_sol st1))
                                 then st1\<lparr>best_sol := new_sol, best_i := i\<rparr> else st1)
                      in if first_improvement then Inr st2
                         else explore_loop p sol first_improvement is st2)
                   else explore_loop p sol first_improvement is st))))"

text \<open>
  The result is \<open>(improved, solution)\<close> and the oracle position. \<open>best_i = indices[0]\<close>
  raises IndexError on an empty solution, before anything is drawn.
\<close>

definition flip_neighbour_explorer ::
  "(nat \<Rightarrow> nat) \<Rightarrow> nat \<Rightarrow> solution \<Rightarrow> problem_instance \<Rightarrow> bool
     \<Rightarrow> error + (bool \<times> solution \<times> nat)" where
  "flip_neighbour_explorer rs k sol p first_improvement =
     (let indices = [0..<length (lst sol)] in
      case py_get indices 0 of Inl e \<Rightarrow> Inl e
      | Inr i0 \<Rightarrow>
          (let st0 = \<lparr>improved = False, delta_fitness = None, best_delta_fitness = 0,
                      best_sol = sol, best_i = i0\<rparr>;
               (indices', k') = (if first_improvement then shuffle rs k indices else (indices, k))
           in case explore_loop p sol first_improvement indices' st0 of Inl e \<Rightarrow> Inl e
              | Inr st \<Rightarrow>
                  (if improved st then
                     (if has_flip_delta_eval p then
                        (case delta_fitness st of None \<Rightarrow> Inl UnboundLocalError
                         | Some d \<Rightarrow>
                             (case flip_with_delta p sol (best_i st) d of Inl e \<Rightarrow> Inl e
                              | Inr new_sol \<Rightarrow> Inr (True, new_sol, k')))
                      else Inr (True, best_sol st, k'))
                   else Inr (False, sol, k'))))"

subsection \<open>hc\<close>

type_synonym explorer =
  "(nat \<Rightarrow> nat) \<Rightarrow> nat \<Rightarrow> solution \<Rightarrow> problem_instance \<Rightarrow> bool \<Rightarrow> error + (bool \<times> solution \<times> nat)"

text \<open>
  One call of the explorer, then \<^verbatim>\<open>while improved\<close>: each pass of the recursion is one
  call, and the loop goes on while the call reports an improvement.
\<close>

partial_function (option) hc ::
  "(nat \<Rightarrow> nat) \<Rightarrow> nat \<Rightarrow> solution \<Rightarrow> problem_instance \<Rightarrow> explorer \<Rightarrow> bool
     \<Rightarrow> (error + (solution \<times> nat)) option" where
  "hc rs k init_sol problem neighbour_explorer first_improvement =
     (case neighbour_explorer rs k init_sol problem first_improvement of
        Inl e \<Rightarrow> Some (Inl e)
      | Inr (imp, sol, k') \<Rightarrow>
          (if imp then hc rs k' sol problem neighbour_explorer first_improvement
           else Some (Inr (sol, k'))))"

subsection \<open>ils\<close>

type_synonym local_search =
  "(nat \<Rightarrow> nat) \<Rightarrow> nat \<Rightarrow> solution \<Rightarrow> problem_instance \<Rightarrow> explorer \<Rightarrow> bool
     \<Rightarrow> (error + (solution \<times> nat)) option"

text \<open>
  The acceptance step (lines 167 to 174): the new \<open>best_lo\<close> and the new counter.
  \<open>best_lo\<close> is reassigned before the strict comparison reads it.
\<close>

definition acceptance :: "problem_instance \<Rightarrow> solution \<Rightarrow> solution \<Rightarrow> int \<Rightarrow> solution \<times> int" where
  "acceptance p lo best_lo non_improvement_cnt =
     (if better_or_equal p (fitness lo) (fitness best_lo) then
        (let best_lo' = lo in
         if strictly_better p (fitness lo) (fitness best_lo') then (best_lo', 0)
         else (best_lo', non_improvement_cnt + 1))
      else (best_lo, non_improvement_cnt + 1))"

text \<open>
  The \<open>while\<close> loop of \<open>ils\<close>. The log is the list of the pairs \<open>(best_lo, lo)\<close> passed to
  \<open>lon_logger.info\<close>, one entry per pass; the file handling of the logger is not modelled.
\<close>

partial_function (option) ils_loop ::
  "(nat \<Rightarrow> nat) \<Rightarrow> problem_instance \<Rightarrow> local_search \<Rightarrow> explorer \<Rightarrow> int \<Rightarrow> bool
     \<Rightarrow> nat \<Rightarrow> solution \<Rightarrow> int \<Rightarrow> (solution \<times> solution) list
     \<Rightarrow> (error + (solution \<times> (solution \<times> solution) list \<times> nat)) option" where
  "ils_loop rs p ls ne non_impr_iters first_improvement k best_lo non_improvement_cnt log =
     (if non_improvement_cnt < non_impr_iters then
        (case two_rnd_flips rs k p best_lo of None \<Rightarrow> None
         | Some (Inl e) \<Rightarrow> Some (Inl e)
         | Some (Inr (s, k1)) \<Rightarrow>
             (case ls rs k1 s p ne first_improvement of None \<Rightarrow> None
              | Some (Inl e) \<Rightarrow> Some (Inl e)
              | Some (Inr (lo, k2)) \<Rightarrow>
                  (case acceptance p lo best_lo non_improvement_cnt of
                     (best_lo', cnt') \<Rightarrow>
                       ils_loop rs p ls ne non_impr_iters first_improvement k2 best_lo' cnt'
                         (log @ [(best_lo, lo)]))))
      else Some (Inr (best_lo, log, k)))"

definition ils ::
  "(nat \<Rightarrow> nat) \<Rightarrow> nat \<Rightarrow> solution \<Rightarrow> problem_instance \<Rightarrow> local_search \<Rightarrow> explorer \<Rightarrow> int \<Rightarrow> bool
     \<Rightarrow> (error + (solution \<times> (solution \<times> solution) list \<times> nat)) option" where
  "ils rs k sol p ls ne non_impr_iters first_improvement =
     (case ls rs k sol p ne first_improvement of None \<Rightarrow> None
      | Some (Inl e) \<Rightarrow> Some (Inl e)
      | Some (Inr (lo, k1)) \<Rightarrow>
          ils_loop rs p ls ne non_impr_iters first_improvement k1 lo 0 [])"

declare redraw.simps [code]
declare hc.simps [code]
declare ils_loop.simps [code]

subsection \<open>Problem objects of other subclasses\<close>

text \<open>
  \<open>flip_neighbour_explorer\<close> takes any object of a concrete subclass of
  \<open>ProblemInstance\<close>. Such an object is given by what its methods do: the record below
  holds the implementations of the abstract methods that the explorer calls.
  \<open>strictly_better\<close> is inherited from \<open>ProblemInstance\<close> and reads \<open>maximize()\<close>.
\<close>

record problem_object =
  m_maximize :: pyval
  m_full_eval :: "solution \<Rightarrow> error + solution"
  m_has_flip_delta_eval :: bool
  m_flip_delta_eval :: "solution \<Rightarrow> nat \<Rightarrow> error + (bool \<times> int)"
  m_flip_with_delta :: "solution \<Rightarrow> nat \<Rightarrow> int \<Rightarrow> error + solution"

definition object_strictly_better :: "problem_object \<Rightarrow> int \<Rightarrow> int \<Rightarrow> bool" where
  "object_strictly_better ob a b = (if truthy (m_maximize ob) then a > b else a < b)"

text \<open>The methods of the three classes of the repository, as an object.\<close>

definition object_of :: "problem_instance \<Rightarrow> problem_object" where
  "object_of p =
     \<lparr>m_maximize = maximize p, m_full_eval = full_eval p,
      m_has_flip_delta_eval = has_flip_delta_eval p,
      m_flip_delta_eval = flip_delta_eval p, m_flip_with_delta = flip_with_delta p\<rparr>"


text \<open>
  The loop and the body of \<open>flip_neighbour_explorer\<close> (lines 68 to 106) once more, with
  the method calls dispatched on the object.
\<close>

fun object_explore_loop ::
  "problem_object \<Rightarrow> solution \<Rightarrow> bool \<Rightarrow> nat list \<Rightarrow> explorer_state \<Rightarrow> error + explorer_state" where
  "object_explore_loop ob sol first_improvement [] st = Inr st"
| "object_explore_loop ob sol first_improvement (i # is) st =
     (if m_has_flip_delta_eval ob then
        (case m_flip_delta_eval ob sol i of Inl e \<Rightarrow> Inl e
         | Inr (imp, d) \<Rightarrow>
             (let st1 = st\<lparr>improved := imp, delta_fitness := Some d\<rparr> in
              if imp then
                (let st2 = (if object_strictly_better ob d (best_delta_fitness st1)
                            then st1\<lparr>best_delta_fitness := d, best_i := i\<rparr> else st1)
                 in if first_improvement then Inr st2
                    else object_explore_loop ob sol first_improvement is st2)
              else object_explore_loop ob sol first_improvement is st1))
      else
        (case flip_at (lst sol) i of Inl e \<Rightarrow> Inl e
         | Inr xs \<Rightarrow>
             (case m_full_eval ob (sol\<lparr>lst := xs\<rparr>) of Inl e \<Rightarrow> Inl e
              | Inr new_sol \<Rightarrow>
                  (if object_strictly_better ob (fitness new_sol) (fitness sol) then
                     (let st1 = st\<lparr>improved := True\<rparr>;
                          st2 = (if object_strictly_better ob (fitness new_sol)
                                      (fitness (best_sol st1))
                                 then st1\<lparr>best_sol := new_sol, best_i := i\<rparr> else st1)
                      in if first_improvement then Inr st2
                         else object_explore_loop ob sol first_improvement is st2)
                   else object_explore_loop ob sol first_improvement is st))))"

definition object_flip_neighbour_explorer ::
  "(nat \<Rightarrow> nat) \<Rightarrow> nat \<Rightarrow> solution \<Rightarrow> problem_object \<Rightarrow> bool
     \<Rightarrow> error + (bool \<times> solution \<times> nat)" where
  "object_flip_neighbour_explorer rs k sol ob first_improvement =
     (let indices = [0..<length (lst sol)] in
      case py_get indices 0 of Inl e \<Rightarrow> Inl e
      | Inr i0 \<Rightarrow>
          (let st0 = \<lparr>improved = False, delta_fitness = None, best_delta_fitness = 0,
                      best_sol = sol, best_i = i0\<rparr>;
               (indices', k') = (if first_improvement then shuffle rs k indices else (indices, k))
           in case object_explore_loop ob sol first_improvement indices' st0 of Inl e \<Rightarrow> Inl e
              | Inr st \<Rightarrow>
                  (if improved st then
                     (if m_has_flip_delta_eval ob then
                        (case delta_fitness st of None \<Rightarrow> Inl UnboundLocalError
                         | Some d \<Rightarrow>
                             (case m_flip_with_delta ob sol (best_i st) d of Inl e \<Rightarrow> Inl e
                              | Inr new_sol \<Rightarrow> Inr (True, new_sol, k')))
                      else Inr (True, best_sol st, k'))
                   else Inr (False, sol, k'))))"

subsection \<open>Notions used in the statements and proofs\<close>

text \<open>
  The data of a problem instance is well formed when the tables cover the dimension:
  a Knapsack has at least \<open>n\<close> item rows, each of the first \<open>n\<close> with the columns 0 to 2;
  a NumberPartitioning has at least \<open>n\<close> magnitudes (its constructor makes exactly \<open>n\<close>).
\<close>

fun well_formed :: "problem_instance \<Rightarrow> bool" where
  "well_formed (OneMax n) = True"
| "well_formed (Knapsack n c items) =
     (nat n \<le> length items \<and> list_all (\<lambda>row. 2 < length row) (take (nat n) items))"
| "well_formed (NumberPartitioning n a) = (nat n \<le> length a)"

text \<open>The list with the positions \<open>i\<close> and \<open>j\<close> flipped, as \<open>flip_at\<close> does one after the other.\<close>

definition flip2 :: "int list \<Rightarrow> nat \<Rightarrow> nat \<Rightarrow> int list" where
  "flip2 xs i j = xs[i := (if xs ! i = 1 then 0 else 1), j := (if xs ! j = 1 then 0 else 1)]"

text \<open>
  An oracle is fair for dimension \<open>n\<close> when no position is drawn forever: after every draw
  some later draw is a different position. Only then does the redraw loop end.
\<close>

definition fair :: "(nat \<Rightarrow> nat) \<Rightarrow> int \<Rightarrow> bool" where
  "fair rs n = (\<forall>k. \<exists>m>k. rs m mod nat n \<noteq> rs k mod nat n)"

text \<open>
  \<open>neighbour p sol s'\<close>: \<open>s'\<close> is the full evaluation of \<open>sol\<close> with one position flipped;
  \<open>no_better p sol i\<close>: flipping position \<open>i\<close> of \<open>sol\<close> evaluates and is not strictly better.
\<close>

definition neighbour :: "problem_instance \<Rightarrow> solution \<Rightarrow> solution \<Rightarrow> bool" where
  "neighbour p sol s' =
     list_ex (\<lambda>i. case flip_at (lst sol) i of Inl e \<Rightarrow> False
                  | Inr xs \<Rightarrow> full_eval p (sol\<lparr>lst := xs\<rparr>) = Inr s') [0..<length (lst sol)]"

definition no_better :: "problem_instance \<Rightarrow> solution \<Rightarrow> nat \<Rightarrow> bool" where
  "no_better p sol i =
     (case flip_at (lst sol) i of Inl e \<Rightarrow> False
      | Inr xs \<Rightarrow>
          (case full_eval p (sol\<lparr>lst := xs\<rparr>) of Inl e \<Rightarrow> False
           | Inr new_sol \<Rightarrow> \<not> strictly_better p (fitness new_sol) (fitness sol)))"

text \<open>The initial state of the explorer's loop, and its \<open>return\<close> statements (lines 98 to 106).\<close>

definition explorer_st0 :: "solution \<Rightarrow> explorer_state" where
  "explorer_st0 sol = \<lparr>improved = False, delta_fitness = None, best_delta_fitness = 0,
                       best_sol = sol, best_i = 0\<rparr>"

definition explorer_finish ::
  "problem_instance \<Rightarrow> solution \<Rightarrow> nat \<Rightarrow> error + explorer_state \<Rightarrow> error + (bool \<times> solution \<times> nat)" where
  "explorer_finish p sol k' r =
     (case r of Inl e \<Rightarrow> Inl e
      | Inr st \<Rightarrow>
          (if improved st then
             (if has_flip_delta_eval p then
                (case delta_fitness st of None \<Rightarrow> Inl UnboundLocalError
                 | Some d \<Rightarrow>
                     (case flip_with_delta p sol (best_i st) d of Inl e \<Rightarrow> Inl e
                      | Inr new_sol \<Rightarrow> Inr (True, new_sol, k')))
              else Inr (True, best_sol st, k'))
           else Inr (False, sol, k')))"

text \<open>The invariant of the loop on a problem without delta evaluation.\<close>

definition full_inv :: "problem_instance \<Rightarrow> solution \<Rightarrow> explorer_state \<Rightarrow> bool" where
  "full_inv p sol st =
     (if improved st
      then strictly_better p (fitness (best_sol st)) (fitness sol) \<and> neighbour p sol (best_sol st)
      else best_sol st = sol)"

text \<open>
  A ranking function for \<open>hc\<close> on the problems without delta evaluation: the fitness of a
  NumberPartitioning solution is not negative and decreases; the fitness of a Knapsack
  solution increases and stays below a bound that no flip increases.
\<close>

definition Knapsack_bound :: "int list list \<Rightarrow> int list \<Rightarrow> int" where
  "Knapsack_bound items xs = (\<Sum>i\<leftarrow>[0..<length xs]. \<bar>items ! i ! 1\<bar> * max 1 \<bar>xs ! i\<bar>)"

fun hc_measure :: "problem_instance \<Rightarrow> solution \<Rightarrow> nat" where
  "hc_measure (OneMax n) sol = 0"
| "hc_measure (Knapsack n c items) sol = nat (Knapsack_bound items (lst sol) - fitness sol)"
| "hc_measure (NumberPartitioning n a) sol = nat (fitness sol)"

section \<open>Properties\<close>

subsection \<open>Auxiliary facts\<close>

lemma sum_list_update_int:
  "i < length xs \<Longrightarrow> sum_list (xs[i := v]) = sum_list xs - xs ! i + (v::int)"
  by (induction xs arbitrary: i) (auto split: nat.splits)

lemma strictly_better_irrefl: "\<not> strictly_better p a a"
  by (simp add: strictly_better_def)

lemma better_or_equal_refl: "better_or_equal p a a"
  by (simp add: better_or_equal_def)

lemma strictly_better_imp_better_or_equal:
  "strictly_better p a b \<Longrightarrow> better_or_equal p a b"
  by (simp add: strictly_better_def better_or_equal_def split: if_splits)

subsection \<open>Evaluation\<close>

lemma instantiable_iff: "instantiable p \<longleftrightarrow> \<not> has_flip_delta_eval p"
  by (cases p) (simp_all add: instantiable_def abstract_methods_def)

lemma flip_at_Inr:
  "flip_at xs i = Inr xs' \<longleftrightarrow> i < length xs \<and> xs' = xs[i := (if xs ! i = 1 then 0 else 1)]"
  by (auto simp: flip_at_def py_get_def)

lemma flip_at_length: "flip_at xs i = Inr xs' \<Longrightarrow> length xs' = length xs"
  by (auto simp: flip_at_Inr)

lemma Knapsack_terms_ok:
  "\<forall>i\<in>set is. i < length items \<and> col < length (items ! i) \<Longrightarrow>
   Knapsack_terms items col xs is = Inr (map (\<lambda>i. xs ! i * items ! i ! col) is)"
  by (induction "is") (simp_all add: py_get_def)

lemma Knapsack_sum_ok:
  assumes "length xs \<le> length items" "\<forall>i<length xs. col < length (items ! i)"
  shows "Knapsack_sum items col xs = Inr (\<Sum>i\<leftarrow>[0..<length xs]. xs ! i * items ! i ! col)"
  using assms by (simp add: Knapsack_sum_def Knapsack_terms_ok)

lemma NumberPartitioning_terms_ok:
  "\<forall>i\<in>set is. i < length a \<Longrightarrow>
   NumberPartitioning_terms a v xs is = Inr (map (\<lambda>i. a ! i) (filter (\<lambda>i. xs ! i = v) is))"
  by (induction "is") (simp_all add: py_get_def)

lemma NumberPartitioning_cost_ok:
  "length xs \<le> length a \<Longrightarrow>
   NumberPartitioning_cost a v xs = Inr (\<Sum>i\<leftarrow>filter (\<lambda>i. xs ! i = v) [0..<length xs]. a ! i)"
  by (simp add: NumberPartitioning_cost_def NumberPartitioning_terms_ok)

lemma full_eval_lst: "full_eval p s = Inr s' \<Longrightarrow> lst s' = lst s \<and> invalid s' = False"
  by (cases p)
     (auto simp: OneMax_full_eval_def Knapsack_full_eval_def NumberPartitioning_full_eval_def
           Let_def split: if_splits sum.splits)

lemma full_eval_idem: "full_eval p s = Inr s' \<Longrightarrow> full_eval p s' = Inr s'"
  by (cases p)
     (auto simp: OneMax_full_eval_def Knapsack_full_eval_def NumberPartitioning_full_eval_def
           Let_def split: if_splits sum.splits)

lemma well_formed_Knapsack_rows:
  assumes "well_formed (Knapsack n c items)" "int l = n" "i < l"
  shows "i < length items \<and> 2 < length (items ! i)"
proof -
  from assms have "i < nat n" "nat n \<le> length items" by auto
  moreover from assms have "\<forall>row\<in>set (take (nat n) items). 2 < length row"
    by (simp add: list_all_iff)
  ultimately show ?thesis
    by (metis in_set_conv_nth length_take min.absorb2 nth_take order_less_le_trans)
qed

lemma Knapsack_full_eval_ok:
  assumes "well_formed (Knapsack n c items)" "int (length (lst s)) = n"
  shows "Knapsack_full_eval n c items s =
     Inr (s\<lparr>fitness := (if (\<Sum>i\<leftarrow>[0..<length (lst s)]. lst s ! i * items ! i ! 2) > c then 0
                         else (\<Sum>i\<leftarrow>[0..<length (lst s)]. lst s ! i * items ! i ! 1)),
            weight := Some (\<Sum>i\<leftarrow>[0..<length (lst s)]. lst s ! i * items ! i ! 2),
            invalid := False\<rparr>)"
proof -
  have r: "\<forall>i<length (lst s). i < length items \<and> 2 < length (items ! i)"
    using well_formed_Knapsack_rows [OF assms] by blast
  have l: "length (lst s) \<le> length items"
    using assms by auto
  have c2: "\<forall>i<length (lst s). 2 < length (items ! i)" using r by blast
  have c1: "\<forall>i<length (lst s). Suc 0 < length (items ! i)" using r by fastforce
  show ?thesis
    using assms(2)
    by (simp add: Knapsack_full_eval_def Knapsack_sum_ok [OF l c2] Knapsack_sum_ok [OF l c1])
qed

lemma NumberPartitioning_full_eval_ok:
  assumes "well_formed (NumberPartitioning n a)" "int (length (lst s)) = n"
  shows "NumberPartitioning_full_eval n a s =
     Inr (s\<lparr>fitness := \<bar>(\<Sum>i\<leftarrow>filter (\<lambda>i. lst s ! i = 0) [0..<length (lst s)]. a ! i)
                         - (\<Sum>i\<leftarrow>filter (\<lambda>i. lst s ! i = 1) [0..<length (lst s)]. a ! i)\<bar>,
            invalid := False\<rparr>)"
proof -
  have l: "length (lst s) \<le> length a" using assms by auto
  show ?thesis
    using assms(2)
    by (simp add: NumberPartitioning_full_eval_def NumberPartitioning_cost_ok [OF l] abs_if)
qed

lemma full_eval_total:
  assumes "well_formed p" "int (length (lst s)) = n_of p"
  shows "\<exists>s'. full_eval p s = Inr s'"
  using assms
  by (cases p) (simp_all add: Knapsack_full_eval_ok NumberPartitioning_full_eval_ok)

lemma NumberPartitioning_fitness_nonneg:
  "full_eval (NumberPartitioning n a) s = Inr s' \<Longrightarrow> 0 \<le> fitness s'"
  by (auto simp: NumberPartitioning_full_eval_def Let_def split: if_splits sum.splits)

subsection \<open>The explorer on a problem without delta evaluation\<close>

lemma neighbourI:
  assumes "flip_at (lst sol) i = Inr xs" and "full_eval p (sol\<lparr>lst := xs\<rparr>) = Inr s'"
  shows "neighbour p sol s'"
proof -
  have "i \<in> set [0..<length (lst sol)]" using assms(1) by (simp add: flip_at_Inr)
  then show ?thesis
    unfolding neighbour_def list_ex_iff using assms by (intro bexI [of _ i]) simp_all
qed

lemma neighbourD:
  assumes "neighbour p sol s'"
  shows "\<exists>i xs. flip_at (lst sol) i = Inr xs \<and> full_eval p (sol\<lparr>lst := xs\<rparr>) = Inr s'"
proof -
  from assms obtain i where
    "case flip_at (lst sol) i of Inl e \<Rightarrow> False | Inr xs \<Rightarrow> full_eval p (sol\<lparr>lst := xs\<rparr>) = Inr s'"
    unfolding neighbour_def list_ex_iff by blast
  then show ?thesis by (cases "flip_at (lst sol) i") auto
qed

lemma flip_neighbour_explorer_unfold:
  "flip_neighbour_explorer rs k sol p fi =
     (if lst sol = [] then Inl IndexError
      else if fi then
        explorer_finish p sol (snd (shuffle rs k [0..<length (lst sol)]))
          (explore_loop p sol fi (fst (shuffle rs k [0..<length (lst sol)])) (explorer_st0 sol))
      else explorer_finish p sol k
          (explore_loop p sol fi [0..<length (lst sol)] (explorer_st0 sol)))"
  by (cases "shuffle rs k [0..<length (lst sol)]")
     (simp add: flip_neighbour_explorer_def py_get_def explorer_finish_def explorer_st0_def)

lemma shuffle_loop_set:
  "\<forall>i\<in>set is. i < length xs \<Longrightarrow>
   set (fst (shuffle_loop rs k xs is)) = set xs \<and> length (fst (shuffle_loop rs k xs is)) = length xs"
proof (induction "is" arbitrary: xs k)
  case Nil
  then show ?case by simp
next
  case (Cons i "is")
  let ?j = "rs k mod (i + 1)"
  have i: "i < length xs" using Cons.prems by simp
  have j: "?j < length xs"
    by (rule le_less_trans [OF _ i]) (simp add: less_Suc_eq_le [symmetric])
  have "set (xs[i := xs ! ?j, ?j := xs ! i]) = set xs"
    using i j by simp
  moreover have "\<forall>i'\<in>set is. i' < length (xs[i := xs ! ?j, ?j := xs ! i])"
    using Cons.prems by simp
  ultimately show ?case
    using Cons.IH [of "xs[i := xs ! ?j, ?j := xs ! i]" "Suc k"]
    by (simp add: Let_def)
qed

lemma shuffle_set: "set (fst (shuffle rs k xs)) = set xs"
  unfolding shuffle_def
  using shuffle_loop_set [of "rev [1..<length xs]" xs rs k] by simp

lemma explore_loop_full_inv:
  assumes "\<not> has_flip_delta_eval p"
  shows "explore_loop p sol fi is st = Inr st' \<Longrightarrow> full_inv p sol st \<Longrightarrow> full_inv p sol st'"
proof (induction "is" arbitrary: st)
  case Nil
  then show ?case by simp
next
  case (Cons i "is")
  from Cons.prems(1) assms obtain xs new_sol where
    f: "flip_at (lst sol) i = Inr xs" and e: "full_eval p (sol\<lparr>lst := xs\<rparr>) = Inr new_sol"
    by (auto split: sum.splits)
  have nb: "neighbour p sol new_sol" using f e by (rule neighbourI)
  show ?case
  proof (cases "strictly_better p (fitness new_sol) (fitness sol)")
    case False
    with Cons.prems assms f e have "explore_loop p sol fi is st = Inr st'" by simp
    then show ?thesis using Cons.IH Cons.prems(2) by blast
  next
    case True
    let ?st1 = "st\<lparr>improved := True\<rparr>"
    let ?st2 = "if strictly_better p (fitness new_sol) (fitness (best_sol ?st1))
                then ?st1\<lparr>best_sol := new_sol, best_i := i\<rparr> else ?st1"
    have inv2: "full_inv p sol ?st2"
      using Cons.prems(2) True nb by (auto simp: full_inv_def split: if_splits)
    show ?thesis
    proof (cases fi)
      case True
      with Cons.prems(1) assms f e \<open>strictly_better p (fitness new_sol) (fitness sol)\<close>
      have "st' = ?st2" by (simp add: Let_def)
      with inv2 show ?thesis by simp
    next
      case False
      with Cons.prems(1) assms f e \<open>strictly_better p (fitness new_sol) (fitness sol)\<close>
      have "explore_loop p sol fi is ?st2 = Inr st'" by (simp add: Let_def)
      then show ?thesis using Cons.IH inv2 by blast
    qed
  qed
qed

lemma explore_loop_full_total:
  assumes "\<not> has_flip_delta_eval p" "well_formed p" "int (length (lst sol)) = n_of p"
  shows "\<forall>i\<in>set is. i < length (lst sol) \<Longrightarrow> \<exists>st'. explore_loop p sol fi is st = Inr st'"
proof (induction "is" arbitrary: st)
  case Nil
  then show ?case by simp
next
  case (Cons i "is")
  then have i: "i < length (lst sol)" by simp
  then obtain xs where f: "flip_at (lst sol) i = Inr xs" by (auto simp: flip_at_Inr)
  then have "length xs = length (lst sol)" by (rule flip_at_length)
  with assms obtain new_sol where e: "full_eval p (sol\<lparr>lst := xs\<rparr>) = Inr new_sol"
    using full_eval_total [of p "sol\<lparr>lst := xs\<rparr>"] by auto
  show ?case
    using assms(1) f e Cons.IH Cons.prems by (auto simp: Let_def)
qed

lemma flip_neighbour_explorer_full:
  assumes "\<not> has_flip_delta_eval p"
    and "flip_neighbour_explorer rs k sol p fi = Inr (imp, s', k')"
  shows "if imp then strictly_better p (fitness s') (fitness sol) \<and> neighbour p sol s'
         else s' = sol"
proof -
  have inv0: "full_inv p sol (explorer_st0 sol)" by (simp add: full_inv_def explorer_st0_def)
  from assms(2) obtain "is" st where
    l: "explore_loop p sol fi is (explorer_st0 sol) = Inr st"
    and r: "imp = improved st" "s' = (if improved st then best_sol st else sol)"
    by (auto simp: flip_neighbour_explorer_unfold explorer_finish_def assms(1)
        split: if_splits sum.splits)
  from explore_loop_full_inv [OF assms(1) l inv0] r show ?thesis
    by (auto simp: full_inv_def)
qed

lemma flip_neighbour_explorer_total:
  assumes "\<not> has_flip_delta_eval p" "well_formed p" "int (length (lst sol)) = n_of p"
    and "0 < length (lst sol)"
  shows "\<exists>imp s' k'. flip_neighbour_explorer rs k sol p fi = Inr (imp, s', k')"
proof -
  let ?is = "if fi then fst (shuffle rs k [0..<length (lst sol)]) else [0..<length (lst sol)]"
  have "set ?is = set [0..<length (lst sol)]" by (simp add: shuffle_set)
  then have "\<forall>i\<in>set ?is. i < length (lst sol)"
    by (metis atLeastLessThan_iff set_upt)
  from explore_loop_full_total [OF assms(1-3) this, of fi "explorer_st0 sol"]
  obtain st where l: "explore_loop p sol fi ?is (explorer_st0 sol) = Inr st" by blast
  show ?thesis
    using assms(4) assms(1) l
    by (auto simp: flip_neighbour_explorer_unfold explorer_finish_def split: if_splits)
qed

lemma flip_neighbour_explorer_False_same:
  assumes "flip_neighbour_explorer rs k sol p fi = Inr (False, s', k')"
  shows "s' = sol"
  using assms
  by (auto simp: flip_neighbour_explorer_unfold explorer_finish_def
      split: if_splits sum.splits option.splits)

lemma explore_loop_improved_mono:
  assumes "\<not> has_flip_delta_eval p"
  shows "explore_loop p sol fi is st = Inr st' \<Longrightarrow> improved st \<Longrightarrow> improved st'"
  using assms
  by (induction "is" arbitrary: st) (auto simp: Let_def split: sum.splits if_splits)

lemma explore_loop_full_unimproved:
  assumes nd: "\<not> has_flip_delta_eval p"
  shows "\<not> improved st \<Longrightarrow>
         (explore_loop p sol fi is st = Inr st' \<and> \<not> improved st')
           \<longleftrightarrow> (st' = st \<and> list_all (no_better p sol) is)"
proof (induction "is" arbitrary: st)
  case Nil
  then show ?case by auto
next
  case (Cons i "is")
  show ?case
  proof (cases "flip_at (lst sol) i")
    case (Inl e)
    with nd show ?thesis by (simp add: no_better_def)
  next
    case f: (Inr xs)
    show ?thesis
    proof (cases "full_eval p (sol\<lparr>lst := xs\<rparr>)")
      case (Inl e)
      with nd f show ?thesis by (simp add: no_better_def)
    next
      case e: (Inr new_sol)
      show ?thesis
      proof (cases "strictly_better p (fitness new_sol) (fitness sol)")
        case False
        with nd f e Cons.IH [OF Cons.prems] show ?thesis by (simp add: no_better_def)
      next
        case True
        have "\<not> (explore_loop p sol fi (i # is) st = Inr st' \<and> \<not> improved st')"
        proof
          assume a: "explore_loop p sol fi (i # is) st = Inr st' \<and> \<not> improved st'"
          let ?st1 = "st\<lparr>improved := True\<rparr>"
          let ?st2 = "if strictly_better p (fitness new_sol) (fitness (best_sol ?st1))
                      then ?st1\<lparr>best_sol := new_sol, best_i := i\<rparr> else ?st1"
          have i2: "improved ?st2" by simp
          from a nd f e True have "st' = ?st2 \<or> explore_loop p sol fi is ?st2 = Inr st'"
            by (auto simp: Let_def split: if_splits)
          then have "improved st'"
            using i2 explore_loop_improved_mono [OF nd, of sol fi "is" ?st2 st'] by auto
          with a show False by simp
        qed
        moreover have "\<not> no_better p sol i" using f e True by (simp add: no_better_def)
        ultimately show ?thesis by simp
      qed
    qed
  qed
qed

lemma flip_neighbour_explorer_no_improvement_iff:
  assumes nd: "\<not> has_flip_delta_eval p"
  shows "(\<exists>s' k'. flip_neighbour_explorer rs k sol p fi = Inr (False, s', k'))
         \<longleftrightarrow> (lst sol \<noteq> [] \<and> list_all (no_better p sol) [0..<length (lst sol)])"
proof -
  let ?is = "if fi then fst (shuffle rs k [0..<length (lst sol)]) else [0..<length (lst sol)]"
  let ?k = "if fi then snd (shuffle rs k [0..<length (lst sol)]) else k"
  have u: "flip_neighbour_explorer rs k sol p fi =
        (if lst sol = [] then Inl IndexError
         else explorer_finish p sol ?k (explore_loop p sol fi ?is (explorer_st0 sol)))"
    by (simp add: flip_neighbour_explorer_unfold)
  have s: "list_all (no_better p sol) ?is = list_all (no_better p sol) [0..<length (lst sol)]"
    by (simp add: list_all_iff shuffle_set)
  have n0: "\<not> improved (explorer_st0 sol)" by (simp add: explorer_st0_def)
  note iff = explore_loop_full_unimproved [OF nd n0, of sol fi ?is]
  show ?thesis
  proof (cases "lst sol = []")
    case True
    with u show ?thesis by simp
  next
    case False
    have "(\<exists>s' k'. explorer_finish p sol ?k (explore_loop p sol fi ?is (explorer_st0 sol))
                     = Inr (False, s', k'))
          \<longleftrightarrow> (\<exists>st'. explore_loop p sol fi ?is (explorer_st0 sol) = Inr st' \<and> \<not> improved st')"
      using nd by (auto simp: explorer_finish_def split: sum.splits if_splits)
    also have "\<dots> \<longleftrightarrow> list_all (no_better p sol) ?is"
      using iff by blast
    finally show ?thesis using False u s by simp
  qed
qed

subsection \<open>The hill climber returns\<close>

lemma Knapsack_bound_nonneg: "0 \<le> Knapsack_bound items xs"
  unfolding Knapsack_bound_def by (rule sum_list_nonneg) auto

lemma Knapsack_value_le_bound:
  "(\<Sum>i\<leftarrow>[0..<length xs]. xs ! i * items ! i ! 1) \<le> Knapsack_bound items xs"
  unfolding Knapsack_bound_def
proof (rule sum_list_mono)
  fix i
  have "xs ! i * items ! i ! 1 \<le> \<bar>xs ! i * items ! i ! 1\<bar>" by simp
  also have "\<dots> = \<bar>items ! i ! 1\<bar> * \<bar>xs ! i\<bar>" by (simp add: abs_mult mult.commute)
  also have "\<dots> \<le> \<bar>items ! i ! 1\<bar> * max 1 \<bar>xs ! i\<bar>"
    by (rule mult_left_mono) simp_all
  finally show "xs ! i * items ! i ! 1 \<le> \<bar>items ! i ! 1\<bar> * max 1 \<bar>xs ! i\<bar>" .
qed

lemma Knapsack_bound_flip:
  assumes "flip_at xs i = Inr xs'"
  shows "Knapsack_bound items xs' \<le> Knapsack_bound items xs"
proof -
  from assms have i: "i < length xs" and xs': "xs' = xs[i := (if xs ! i = 1 then 0 else 1)]"
    by (simp_all add: flip_at_Inr)
  have "(\<Sum>j\<leftarrow>[0..<length xs]. \<bar>items ! j ! 1\<bar> * max 1 \<bar>xs' ! j\<bar>)
        \<le> (\<Sum>j\<leftarrow>[0..<length xs]. \<bar>items ! j ! 1\<bar> * max 1 \<bar>xs ! j\<bar>)"
  proof (rule sum_list_mono)
    fix j assume "j \<in> set [0..<length xs]"
    then have "max 1 \<bar>xs' ! j\<bar> \<le> max 1 \<bar>xs ! j\<bar>"
      using i by (cases "j = i") (auto simp: xs')
    then show "\<bar>items ! j ! 1\<bar> * max 1 \<bar>xs' ! j\<bar> \<le> \<bar>items ! j ! 1\<bar> * max 1 \<bar>xs ! j\<bar>"
      by (rule mult_left_mono) simp
  qed
  then show ?thesis by (simp add: Knapsack_bound_def xs')
qed

lemma Knapsack_fitness_le_bound:
  assumes "well_formed (Knapsack n c items)" "full_eval (Knapsack n c items) s = Inr s'"
  shows "fitness s' \<le> Knapsack_bound items (lst s)"
proof -
  from assms(2) have "int (length (lst s)) = n"
    by (auto simp: Knapsack_full_eval_def Let_def split: if_splits)
  from Knapsack_full_eval_ok [OF assms(1) this] assms(2)
  show ?thesis
    using Knapsack_bound_nonneg [of items "lst s"] Knapsack_value_le_bound [of "lst s" items]
    by (auto split: if_splits)
qed

lemma hc_measure_decreases:
  assumes nd: "\<not> has_flip_delta_eval p" and wf: "well_formed p"
    and ex: "flip_neighbour_explorer rs k sol p fi = Inr (True, s', k')"
  shows "hc_measure p s' < hc_measure p sol \<and> length (lst s') = length (lst sol)"
proof -
  from flip_neighbour_explorer_full [OF nd ex]
  have sb: "strictly_better p (fitness s') (fitness sol)" and nb: "neighbour p sol s'" by simp_all
  from neighbourD [OF nb] obtain i xs where
    f: "flip_at (lst sol) i = Inr xs" and e: "full_eval p (sol\<lparr>lst := xs\<rparr>) = Inr s'" by blast
  have l: "lst s' = xs" using full_eval_lst [OF e] by simp
  have len: "length (lst s') = length (lst sol)" using l flip_at_length [OF f] by simp
  show ?thesis
  proof (cases p)
    case (OneMax n)
    with nd show ?thesis by simp
  next
    case (Knapsack n c items)
    have "fitness s' \<le> Knapsack_bound items xs"
      using Knapsack_fitness_le_bound [of n c items "sol\<lparr>lst := xs\<rparr>" s'] wf e Knapsack by simp
    moreover have "Knapsack_bound items xs \<le> Knapsack_bound items (lst sol)"
      using f by (rule Knapsack_bound_flip)
    moreover have "fitness sol < fitness s'"
      using sb Knapsack by (simp add: strictly_better_def)
    ultimately show ?thesis using Knapsack l len by simp
  next
    case (NumberPartitioning n a)
    have "0 \<le> fitness s'"
      using NumberPartitioning_fitness_nonneg e NumberPartitioning by simp
    moreover have "fitness s' < fitness sol"
      using sb NumberPartitioning by (simp add: strictly_better_def)
    ultimately show ?thesis using NumberPartitioning len by simp
  qed
qed

lemma hc_returns:
  assumes nd: "\<not> has_flip_delta_eval p" and wf: "well_formed p"
  shows "int (length (lst sol)) = n_of p \<Longrightarrow> 0 < length (lst sol) \<Longrightarrow>
         \<exists>s' k0 k'. hc rs k sol p flip_neighbour_explorer fi = Some (Inr (s', k')) \<and>
                 length (lst s') = length (lst sol) \<and>
                 flip_neighbour_explorer rs k0 s' p fi = Inr (False, s', k')"
proof (induction "hc_measure p sol" arbitrary: sol k rule: less_induct)
  case less
  from flip_neighbour_explorer_total [OF nd wf less.prems, of rs k fi]
  obtain imp s1 k1 where ex: "flip_neighbour_explorer rs k sol p fi = Inr (imp, s1, k1)" by blast
  show ?case
  proof (cases imp)
    case True
    with ex hc_measure_decreases [OF nd wf, of rs k sol fi s1 k1]
    have m: "hc_measure p s1 < hc_measure p sol" and len: "length (lst s1) = length (lst sol)"
      by simp_all
    from less.hyps [OF m, of k1] len less.prems
    obtain s' k0 k' where
      "hc rs k1 s1 p flip_neighbour_explorer fi = Some (Inr (s', k'))"
      "length (lst s') = length (lst s1)"
      "flip_neighbour_explorer rs k0 s' p fi = Inr (False, s', k')" by auto
    with ex True len show ?thesis
      by (subst hc.simps) auto
  next
    case False
    with flip_neighbour_explorer_full [OF nd ex] have "s1 = sol" by simp
    with ex False show ?thesis
      by (subst hc.simps) auto
  qed
qed

lemma hc_result_unimproved:
  assumes "hc rs k sol p ne fi = Some y"
  shows "ne = flip_neighbour_explorer \<longrightarrow>
         (\<forall>s' k'. y = Inr (s', k') \<longrightarrow>
            (\<exists>k0. flip_neighbour_explorer rs k0 s' p fi = Inr (False, s', k')))"
proof (rule hc.raw_induct [OF _ assms])
  fix hc' :: "(nat \<Rightarrow> nat) \<Rightarrow> nat \<Rightarrow> solution \<Rightarrow> problem_instance \<Rightarrow> explorer \<Rightarrow> bool
     \<Rightarrow> (error + (solution \<times> nat)) option"
    and rs k sol p ne fi y
  assume IH: "\<And>rs k sol p ne fi y. hc' rs k sol p ne fi = Some y \<Longrightarrow>
      ne = flip_neighbour_explorer \<longrightarrow>
         (\<forall>s' k'. y = Inr (s', k') \<longrightarrow>
            (\<exists>k0. flip_neighbour_explorer rs k0 s' p fi = Inr (False, s', k')))"
    and body: "(case ne rs k sol p fi of Inl e \<Rightarrow> Some (Inl e)
      | Inr (imp, s, k') \<Rightarrow> if imp then hc' rs k' s p ne fi else Some (Inr (s, k'))) = Some y"
  show "ne = flip_neighbour_explorer \<longrightarrow>
         (\<forall>s' k'. y = Inr (s', k') \<longrightarrow>
            (\<exists>k0. flip_neighbour_explorer rs k0 s' p fi = Inr (False, s', k')))"
  proof (intro impI allI)
    fix s' k'
    assume ne: "ne = flip_neighbour_explorer" and y: "y = Inr (s', k')"
    show "\<exists>k0. flip_neighbour_explorer rs k0 s' p fi = Inr (False, s', k')"
    proof (cases "ne rs k sol p fi")
      case (Inl e)
      with body y show ?thesis by simp
    next
      case (Inr r)
      obtain imp s k1 where r: "r = (imp, s, k1)" by (cases r) auto
      show ?thesis
      proof (cases imp)
        case True
        with body Inr r have "hc' rs k1 s p ne fi = Some y" by simp
        from IH [OF this] ne y show ?thesis by blast
      next
        case False
        with body Inr r y have eq: "s' = s" "k' = k1" by simp_all
        from Inr r False ne eq
        have e: "flip_neighbour_explorer rs k sol p fi = Inr (False, s', k')" by simp
        then have "s' = sol" by (rule flip_neighbour_explorer_False_same)
        with e show ?thesis by blast
      qed
    qed
  qed
qed

lemma hc_fixpoint:
  assumes nd: "\<not> has_flip_delta_eval p"
    and h: "hc rs k sol p flip_neighbour_explorer fi = Some (Inr (s', k'))"
  shows "\<exists>k''. flip_neighbour_explorer rs' k2 s' p fi' = Inr (False, s', k'')"
proof -
  from hc_result_unimproved [OF h] obtain k0 where
    "flip_neighbour_explorer rs k0 s' p fi = Inr (False, s', k')" by blast
  then have "lst s' \<noteq> [] \<and> list_all (no_better p s') [0..<length (lst s')]"
    using flip_neighbour_explorer_no_improvement_iff [OF nd, of rs k0 s' fi] by blast
  then obtain s'' k'' where e: "flip_neighbour_explorer rs' k2 s' p fi' = Inr (False, s'', k'')"
    using flip_neighbour_explorer_no_improvement_iff [OF nd, of rs' k2 s' fi'] by blast
  then have "s'' = s'" by (rule flip_neighbour_explorer_False_same)
  with e show ?thesis by blast
qed

subsection \<open>Drawing two distinct positions\<close>

lemma randint_0: "1 \<le> n \<Longrightarrow> randint rs k 0 (n - 1) = Inr (int (rs k mod nat n), Suc k)"
  by (simp add: randint_def)

lemma int_mod_range:
  assumes "1 \<le> n"
  shows "int (x mod nat n) < n"
proof -
  from assms have "0 < nat n" by simp
  then have "x mod nat n < nat n" by simp
  then have "int (x mod nat n) < int (nat n)" by (simp only: of_nat_less_iff)
  with assms show ?thesis by simp
qed

lemma redraw_leave: "j \<noteq> i \<Longrightarrow> redraw rs n i j k = Some (Inr (j, k))"
  by (subst redraw.simps) simp

lemma redraw_again:
  "1 \<le> n \<Longrightarrow> redraw rs n i i k = redraw rs n i (int (rs k mod nat n)) (Suc k)"
  by (subst redraw.simps) (simp add: randint_0)

lemma redraw_returns:
  assumes n: "1 \<le> n"
  shows "int (rs m mod nat n) \<noteq> i \<Longrightarrow> k \<le> m \<Longrightarrow>
         \<exists>j k'. redraw rs n i i k = Some (Inr (j, k')) \<and> j \<noteq> i \<and> 0 \<le> j \<and> j < n"
proof (induction "m - k" arbitrary: k)
  case 0
  then have "k = m" by simp
  with 0 n show ?case
    by (simp add: redraw_again redraw_leave int_mod_range)
next
  case (Suc d)
  show ?case
  proof (cases "int (rs k mod nat n) = i")
    case True
    from Suc have "d = m - Suc k" "Suc k \<le> m" by simp_all
    from Suc.hyps(1) [OF this(1) Suc.prems(1) this(2)] True n show ?thesis
      by (simp add: redraw_again)
  next
    case False
    with n show ?thesis
      by (simp add: redraw_again redraw_leave int_mod_range)
  qed
qed

lemma redraw_Some_not_stuck:
  assumes "redraw rs n i j k = Some y"
  shows "\<not> (n = 1 \<and> i = 0 \<and> j = 0)"
proof (rule redraw.raw_induct [OF _ assms])
  fix redraw' :: "(nat \<Rightarrow> nat) \<Rightarrow> int \<Rightarrow> int \<Rightarrow> int \<Rightarrow> nat \<Rightarrow> (error + (int \<times> nat)) option"
    and rs n i j k y
  assume IH: "\<And>rs n i j k y. redraw' rs n i j k = Some y \<Longrightarrow> \<not> (n = 1 \<and> i = 0 \<and> j = 0)"
    and body: "(if j = i
      then case randint rs k 0 (n - 1) of Inl e \<Rightarrow> Some (Inl e)
           | Inr (j', k') \<Rightarrow> redraw' rs n i j' k'
      else Some (Inr (j, k))) = Some y"
  show "\<not> (n = 1 \<and> i = 0 \<and> j = 0)"
  proof
    assume "n = 1 \<and> i = 0 \<and> j = 0"
    with body have "redraw' rs 1 0 0 (Suc k) = Some y"
      by (simp add: randint_def)
    with IH show False by blast
  qed
qed

lemma redraw_stuck: "redraw rs 1 0 0 k = None"
  using redraw_Some_not_stuck [of rs 1 0 0 k] by (cases "redraw rs 1 0 0 k") auto

lemma draw_two_returns:
  assumes "2 \<le> n" "\<exists>m>k. rs m mod nat n \<noteq> rs k mod nat n"
  shows "\<exists>i j k'. draw_two rs k n = Some (Inr (i, j, k')) \<and> i \<noteq> j \<and> int i < n \<and> int j < n"
proof -
  from assms(2) obtain m where "k < m" and ne: "rs m mod nat n \<noteq> rs k mod nat n" by blast
  then have m: "Suc k \<le> m" "int (rs m mod nat n) \<noteq> int (rs k mod nat n)"
    by simp_all
  from assms(1) have n: "1 \<le> n" by simp
  from redraw_returns [of n rs m "int (rs k mod nat n)" "Suc k", OF n m(2) m(1)]
  obtain j k' where
    "redraw rs n (int (rs k mod nat n)) (int (rs k mod nat n)) (Suc k) = Some (Inr (j, k'))"
    "j \<noteq> int (rs k mod nat n)" "0 \<le> j" "j < n" by blast
  with n show ?thesis
    by (auto simp: draw_two_def randint_0 int_mod_range)
qed

lemma redraw_result:
  assumes "redraw rs n i j k = Some y"
  shows "\<forall>j' k'. y = Inr (j', k') \<longrightarrow> j' \<noteq> i \<and> (0 \<le> j \<and> j < n \<longrightarrow> 0 \<le> j' \<and> j' < n)"
proof (rule redraw.raw_induct [OF _ assms])
  fix redraw' :: "(nat \<Rightarrow> nat) \<Rightarrow> int \<Rightarrow> int \<Rightarrow> int \<Rightarrow> nat \<Rightarrow> (error + (int \<times> nat)) option"
    and rs n i j k y
  assume IH: "\<And>rs n i j k y. redraw' rs n i j k = Some y \<Longrightarrow>
      \<forall>j' k'. y = Inr (j', k') \<longrightarrow> j' \<noteq> i \<and> (0 \<le> j \<and> j < n \<longrightarrow> 0 \<le> j' \<and> j' < n)"
    and body: "(if j = i
      then case randint rs k 0 (n - 1) of Inl e \<Rightarrow> Some (Inl e)
           | Inr (j', k') \<Rightarrow> redraw' rs n i j' k'
      else Some (Inr (j, k))) = Some y"
  show "\<forall>j' k'. y = Inr (j', k') \<longrightarrow> j' \<noteq> i \<and> (0 \<le> j \<and> j < n \<longrightarrow> 0 \<le> j' \<and> j' < n)"
  proof (cases "j = i")
    case False
    with body show ?thesis by auto
  next
    case True
    show ?thesis
    proof (cases "1 \<le> n")
      case False
      with body True show ?thesis by (auto simp: randint_def)
    next
      case n: True
      with body True have "redraw' rs n i (int (rs k mod nat n)) (Suc k) = Some y"
        by (simp add: randint_0)
      from IH [OF this] int_mod_range [OF n, of "rs k"] show ?thesis by auto
    qed
  qed
qed

lemma draw_two_distinct:
  assumes "draw_two rs k n = Some (Inr (i, j, k'))"
  shows "i \<noteq> j \<and> int i < n \<and> int j < n"
proof -
  from assms have n: "1 \<le> n"
    by (auto simp: draw_two_def randint_def split: if_splits)
  let ?i = "int (rs k mod nat n)"
  from assms n obtain j' where
    r: "redraw rs n ?i ?i (Suc k) = Some (Inr (j', k'))" and ij: "i = nat ?i" "j = nat j'"
    by (auto simp: draw_two_def randint_0 split: option.splits sum.splits)
  from redraw_result [OF r] int_mod_range [OF n, of "rs k"]
  have "j' \<noteq> ?i" "0 \<le> j'" "j' < n" by auto
  with ij int_mod_range [OF n, of "rs k"] show ?thesis by auto
qed

lemma flip_at_twice:
  assumes "flip_at xs i = Inr xs1" "flip_at xs1 j = Inr xs2" "i \<noteq> j"
  shows "xs2 = flip2 xs i j \<and> i < length xs \<and> j < length xs"
  using assms by (auto simp: flip_at_Inr flip2_def)

lemma flip_at_twice_ok:
  assumes "i < length xs" "j < length xs" "i \<noteq> j"
  shows "\<exists>xs1. flip_at xs i = Inr xs1 \<and> flip_at xs1 j = Inr (flip2 xs i j)"
  using assms by (auto simp: flip_at_Inr flip2_def)

lemma apply_two_flips_result:
  assumes "apply_two_flips p sol i j = Inr s'" "i \<noteq> j"
  shows "i < length (lst sol) \<and> j < length (lst sol) \<and> lst s' = flip2 (lst sol) i j \<and>
         invalid s' = False \<and>
         (if has_flip_delta_eval p
          then fitness s' = fitness sol + (if lst sol ! i = 0 then 1 else - 1)
                            + (if lst sol ! j = 0 then 1 else - 1)
          else full_eval p (sol\<lparr>lst := flip2 (lst sol) i j\<rparr>) = Inr s')"
proof (cases p)
  case (OneMax n)
  with assms(1) obtain xs1 xs2 where
    f: "flip_at (lst sol) i = Inr xs1" "flip_at xs1 j = Inr xs2"
    and s': "s' = sol\<lparr>fitness := fitness sol + ((if lst sol ! i = 0 then 1 else - 1)
                 + (if lst sol ! j = 0 then 1 else - 1)), lst := xs2, invalid := False\<rparr>"
    by (auto simp: OneMax_two_flips_def py_get_def Let_def split: sum.splits if_splits)
  from flip_at_twice [OF f assms(2)] s' OneMax show ?thesis by simp
next
  case (Knapsack n c items)
  with assms(1) obtain xs1 xs2 where
    f: "flip_at (lst sol) i = Inr xs1" "flip_at xs1 j = Inr xs2"
    and e: "full_eval p (sol\<lparr>lst := xs2\<rparr>) = Inr s'"
    by (auto simp: full_eval_two_flips_def split: sum.splits)
  from flip_at_twice [OF f assms(2)] e full_eval_lst [OF e] Knapsack show ?thesis by simp
next
  case (NumberPartitioning n a)
  with assms(1) obtain xs1 xs2 where
    f: "flip_at (lst sol) i = Inr xs1" "flip_at xs1 j = Inr xs2"
    and e: "full_eval p (sol\<lparr>lst := xs2\<rparr>) = Inr s'"
    by (auto simp: full_eval_two_flips_def split: sum.splits)
  from flip_at_twice [OF f assms(2)] e full_eval_lst [OF e] NumberPartitioning show ?thesis by simp
qed

lemma sum_list_flip2_bits:
  assumes "set xs \<subseteq> {0, 1}" "i < length xs" "j < length xs" "i \<noteq> j"
  shows "sum_list (flip2 xs i j)
         = sum_list xs + (if xs ! i = 0 then 1 else - 1) + (if xs ! j = 0 then 1 else - 1)"
proof -
  from assms have "xs ! i = 0 \<or> xs ! i = 1" "xs ! j = 0 \<or> xs ! j = 1"
    using nth_mem by blast+
  with assms(2-4) show ?thesis
    by (auto simp: flip2_def sum_list_update_int)
qed

lemma apply_two_flips_total:
  assumes "well_formed p" "int (length (lst sol)) = n_of p" "int i < n_of p" "int j < n_of p" "i \<noteq> j"
  shows "\<exists>s'. apply_two_flips p sol i j = Inr s'"
proof -
  from assms have i: "i < length (lst sol)" and j: "j < length (lst sol)" by auto
  from flip_at_twice_ok [OF i j assms(5)] obtain xs1 where
    f: "flip_at (lst sol) i = Inr xs1" "flip_at xs1 j = Inr (flip2 (lst sol) i j)" by blast
  have len: "length (flip2 (lst sol) i j) = length (lst sol)" by (simp add: flip2_def)
  show ?thesis
  proof (cases p)
    case (OneMax n)
    with f i j show ?thesis by (simp add: OneMax_two_flips_def py_get_def Let_def)
  next
    case (Knapsack n c items)
    with full_eval_total [of p "sol\<lparr>lst := flip2 (lst sol) i j\<rparr>"] assms(1,2) len f
    show ?thesis by (auto simp: full_eval_two_flips_def)
  next
    case (NumberPartitioning n a)
    with full_eval_total [of p "sol\<lparr>lst := flip2 (lst sol) i j\<rparr>"] assms(1,2) len f
    show ?thesis by (auto simp: full_eval_two_flips_def)
  qed
qed

lemma two_rnd_flips_returns:
  assumes "well_formed p" "int (length (lst sol)) = n_of p" "2 \<le> n_of p"
    and "\<exists>m>k. rs m mod nat (n_of p) \<noteq> rs k mod nat (n_of p)"
  shows "\<exists>s' k'. two_rnd_flips rs k p sol = Some (Inr (s', k')) \<and>
                 length (lst s') = length (lst sol)"
proof -
  from draw_two_returns [OF assms(3,4)] obtain i j k' where
    d: "draw_two rs k (n_of p) = Some (Inr (i, j, k'))" and ij: "i \<noteq> j" "int i < n_of p" "int j < n_of p"
    by blast
  from apply_two_flips_total [OF assms(1,2) ij(2,3,1)] obtain s' where
    a: "apply_two_flips p sol i j = Inr s'" by blast
  from apply_two_flips_result [OF a ij(1)] have "length (lst s') = length (lst sol)"
    by (simp add: flip2_def)
  with d a show ?thesis by (simp add: two_rnd_flips_def)
qed

subsection \<open>Facts about the comparisons and the acceptance step\<close>

lemma acceptance_cases:
  "acceptance p lo best cnt =
     (if better_or_equal p (fitness lo) (fitness best) then lo else best, cnt + 1)"
  by (simp add: acceptance_def strictly_better_def)

lemma better_or_equal_trans:
  "better_or_equal p a b \<Longrightarrow> better_or_equal p b c \<Longrightarrow> better_or_equal p a c"
  by (auto simp: better_or_equal_def split: if_splits)

lemma better_or_equal_total:
  "\<not> better_or_equal p a b \<Longrightarrow> better_or_equal p b a"
  by (auto simp: better_or_equal_def split: if_splits)

lemma fair_id_2: "fair id 2"
  unfolding fair_def
proof
  fix k :: nat
  have "k < Suc k \<and> id (Suc k) mod nat 2 \<noteq> id k mod nat 2" by (simp add: mod_Suc)
  then show "\<exists>m>k. id m mod nat 2 \<noteq> id k mod nat 2" by blast
qed

lemma two_rnd_flips_stuck: "two_rnd_flips rs k (NumberPartitioning 1 a) sol = None"
  by (simp add: two_rnd_flips_def draw_two_def randint_def redraw_stuck)

subsection \<open>The explorer on a delta-evaluation problem, best improvement\<close>

text \<open>On the objects of the three classes the explorer on objects is \<open>flip_neighbour_explorer\<close>.\<close>

lemma object_of_methods:
  "m_maximize (object_of p) = maximize p"
  "m_full_eval (object_of p) = full_eval p"
  "m_has_flip_delta_eval (object_of p) = has_flip_delta_eval p"
  "m_flip_delta_eval (object_of p) = flip_delta_eval p"
  "m_flip_with_delta (object_of p) = flip_with_delta p"
  "object_strictly_better (object_of p) = strictly_better p"
  by (simp_all add: object_of_def object_strictly_better_def strictly_better_def fun_eq_iff)

lemma object_explore_loop_object_of:
  "object_explore_loop (object_of p) sol first_improvement is st
     = explore_loop p sol first_improvement is st"
proof (induction "is" arbitrary: st)
  case Nil
  show ?case by simp
next
  case (Cons i "is")
  show ?case
    by (simp only: object_explore_loop.simps explore_loop.simps object_of_methods Cons.IH)
qed

lemma object_flip_neighbour_explorer_object_of:
  "object_flip_neighbour_explorer rs k sol (object_of p) first_improvement
     = flip_neighbour_explorer rs k sol p first_improvement"
  by (simp only: object_flip_neighbour_explorer_def flip_neighbour_explorer_def
      object_explore_loop_object_of object_of_methods)


subsection \<open>The acceptance step of ils\<close>

text \<open>
  Claim C2. In the acceptance step, when \<open>lo\<close> is at least as good as \<open>best_lo\<close> and
  \<open>best_lo\<close> is replaced by the copy of \<open>lo\<close>, the strict comparison that follows reads
  the replaced \<open>best_lo\<close> and is false; the counter is never reset by that branch, and
  every pass of the loop adds exactly one to it. The copy is kept as the new \<open>best_lo\<close>
  exactly when \<open>lo\<close> is at least as good.
\<close>

theorem acceptance_counter_increments:
  "\<not> strictly_better p (fitness lo)
       (fitness (fst (acceptance p lo best_lo non_improvement_cnt))) \<and>
   snd (acceptance p lo best_lo non_improvement_cnt) = non_improvement_cnt + 1 \<and>
   fst (acceptance p lo best_lo non_improvement_cnt)
     = (if better_or_equal p (fitness lo) (fitness best_lo) then lo else best_lo)"
  by (simp add: acceptance_def strictly_better_def better_or_equal_def)

subsection \<open>The explorer on an empty solution\<close>

text \<open>
  Claim C3. On a solution of length 0 the explorer should return \<open>False\<close> and the
  original solution. The statement \<open>best_i = indices[0]\<close> reads the first element of the
  empty index list: for every problem instance, oracle and mode the call raises IndexError.
\<close>

theorem flip_neighbour_explorer_empty_raises:
  "flip_neighbour_explorer rs k (sol\<lparr>lst := []\<rparr>) p first_improvement = Inl IndexError"
  by (simp add: flip_neighbour_explorer_def py_get_def)

subsection \<open>maximize\<close>

text \<open>
  Claim C4. Every variant should provide \<open>maximize()\<close>, OneMax and Knapsack maximizing and
  NumberPartitioning minimizing, so that for OneMax \<open>strictly_better(a, b)\<close> is \<open>a > b\<close>.
  Knapsack returns True and NumberPartitioning False, but the class OneMax defines no
  \<open>maximize\<close>: it cannot be instantiated, the inherited method returns None, and the
  comparisons derived from it are \<open>a < b\<close> and \<open>a \<le> b\<close>, so that \<open>strictly_better(1, 0)\<close>
  is false.
\<close>

theorem OneMax_has_no_maximize:
  "maximize (Knapsack n c items) = PyBool True \<and>
   maximize (NumberPartitioning n a) = PyBool False \<and>
   ''maximize'' \<notin> set (class_defines (OneMax n)) \<and>
   \<not> instantiable (OneMax n) \<and>
   maximize (OneMax n) = PyNone \<and>
   strictly_better (OneMax n) x y = (x < y) \<and>
   better_or_equal (OneMax n) x y = (x \<le> y) \<and>
   \<not> strictly_better (OneMax n) 1 0"
  by (simp add: instantiable_def abstract_methods_def strictly_better_def better_or_equal_def)

subsection \<open>full_eval and the dimension of the problem\<close>

text \<open>
  Claim C5, as stated: for every variant, \<open>full_eval\<close> on a solution whose length differs
  from \<open>n\<close> is fatal. \<open>OneMax.full_eval\<close> is a static method that never reads \<open>n\<close>: on a
  solution of length 1 and a problem of dimension 3 it returns normally.
\<close>

theorem OneMax_full_eval_ignores_dimension:
  "int (length (lst \<lparr>lst = [1], fitness = 0, invalid = True, weight = None\<rparr>)) \<noteq> 3 \<and>
   full_eval (OneMax 3) \<lparr>lst = [1], fitness = 0, invalid = True, weight = None\<rparr>
     = Inr \<lparr>lst = [1], fitness = 1, invalid = False, weight = None\<rparr>"
  by (simp add: OneMax_full_eval_def)

text \<open>
  Claim C5, amended: for Knapsack and NumberPartitioning, \<open>full_eval\<close> on a solution whose
  length differs from \<open>n\<close> raises AssertionError; \<open>OneMax.full_eval\<close> makes no such check
  and returns the sum of the values for every length.
\<close>

theorem full_eval_dimension_mismatch:
  assumes "int (length (lst sol)) \<noteq> n"
  shows "full_eval (Knapsack n c items) sol = Inl AssertionError \<and>
         full_eval (NumberPartitioning n a) sol = Inl AssertionError \<and>
         full_eval (OneMax n) sol = Inr (sol\<lparr>fitness := sum_list (lst sol), invalid := False\<rparr>)"
  using assms
  by (simp add: Knapsack_full_eval_def NumberPartitioning_full_eval_def OneMax_full_eval_def)

theorem full_eval_dimension_mismatch_witness:
  "int (length (lst \<lparr>lst = [1, 0], fitness = 0, invalid = True, weight = None\<rparr>)) \<noteq> 3 \<and>
   full_eval (Knapsack 3 10 [[1, 4, 5], [2, 3, 2], [3, 1, 1]])
       \<lparr>lst = [1, 0], fitness = 0, invalid = True, weight = None\<rparr> = Inl AssertionError \<and>
   full_eval (NumberPartitioning 3 [4, 5, 6])
       \<lparr>lst = [1, 0], fitness = 0, invalid = True, weight = None\<rparr> = Inl AssertionError"
  using full_eval_dimension_mismatch
    [of "\<lparr>lst = [1, 0], fitness = 0, invalid = True, weight = None\<rparr>" 3 10
        "[[1, 4, 5], [2, 3, 2], [3, 1, 1]]" "[4, 5, 6]"]
  by simp

subsection \<open>Delta evaluation of OneMax against full evaluation\<close>

text \<open>
  Claim C8. For OneMax, every bitstring and every position \<open>i\<close> of it:
  \<open>flip_delta_eval\<close> returns the delta and the verdict obtained by flipping position \<open>i\<close>
  in a copy and evaluating the copy and the original with \<open>full_eval\<close>. The delta is the
  fitness of the flipped copy minus that of the original, and the verdict is true exactly
  when the flipped copy has the greater fitness.
\<close>

theorem OneMax_flip_delta_eval_agrees_with_full_eval:
  assumes "set (lst sol) \<subseteq> {0, 1}" and "i < length (lst sol)"
  shows "\<exists>xs' s1 s0.
           flip_at (lst sol) i = Inr xs' \<and>
           full_eval (OneMax n) (sol\<lparr>lst := xs'\<rparr>) = Inr s1 \<and>
           full_eval (OneMax n) sol = Inr s0 \<and>
           flip_delta_eval (OneMax n) sol i
             = Inr (fitness s1 > fitness s0, fitness s1 - fitness s0)"
proof -
  from assms have "lst sol ! i = 0 \<or> lst sol ! i = 1"
    using nth_mem by blast
  with assms(2) show ?thesis
    by (auto simp: flip_at_def py_get_def OneMax_flip_delta_eval_def OneMax_full_eval_def
        sum_list_update_int)
qed

theorem OneMax_flip_delta_eval_agrees_with_full_eval_witness:
  "set (lst \<lparr>lst = [0, 1, 1], fitness = 2, invalid = False, weight = None\<rparr>) \<subseteq> {0, 1} \<and>
   1 < length (lst \<lparr>lst = [0, 1, 1], fitness = 2, invalid = False, weight = None\<rparr>) \<and>
   flip_delta_eval (OneMax 3) \<lparr>lst = [0, 1, 1], fitness = 2, invalid = False, weight = None\<rparr> 1
     = Inr (False, - 1) \<and>
   full_eval (OneMax 3) \<lparr>lst = [0, 0, 1], fitness = 2, invalid = False, weight = None\<rparr>
     = Inr \<lparr>lst = [0, 0, 1], fitness = 1, invalid = False, weight = None\<rparr>"
  using OneMax_flip_delta_eval_agrees_with_full_eval
    [of "\<lparr>lst = [0, 1, 1], fitness = 2, invalid = False, weight = None\<rparr>" 1 3]
  by (simp add: flip_at_def py_get_def OneMax_flip_delta_eval_def OneMax_full_eval_def)

subsection \<open>The loop of ils returns\<close>

lemma ils_loop_returns:
  assumes nd: "\<not> has_flip_delta_eval p" and wf: "well_formed p" and n: "2 \<le> n_of p"
    and fair: "fair rs (n_of p)"
  shows "int (length (lst best)) = n_of p \<Longrightarrow>
         \<exists>k0 k1. flip_neighbour_explorer rs k0 best p fi = Inr (False, best, k1) \<Longrightarrow>
         \<forall>e\<in>set log. better_or_equal p (fitness best) (fitness (snd e)) \<Longrightarrow>
         \<exists>best' log' k'.
           ils_loop rs p hc flip_neighbour_explorer non_impr_iters fi k best cnt log
             = Some (Inr (best', log', k')) \<and>
           length log' = length log + nat (non_impr_iters - cnt) \<and>
           (\<exists>k0 k1. flip_neighbour_explorer rs k0 best' p fi = Inr (False, best', k1)) \<and>
           better_or_equal p (fitness best') (fitness best) \<and>
           (\<forall>e\<in>set log'. better_or_equal p (fitness best') (fitness (snd e)))"
proof (induction "nat (non_impr_iters - cnt)" arbitrary: k best cnt log)
  case 0
  then have "\<not> cnt < non_impr_iters" by simp
  with 0 show ?case
    by (subst ils_loop.simps) (simp add: better_or_equal_refl)
next
  case (Suc d)
  then have lt: "cnt < non_impr_iters" by simp
  from fair have "\<exists>m>k. rs m mod nat (n_of p) \<noteq> rs k mod nat (n_of p)"
    by (simp add: fair_def)
  from two_rnd_flips_returns [OF wf Suc.prems(1) n this] obtain s k1 where
    t: "two_rnd_flips rs k p best = Some (Inr (s, k1))" and ls: "length (lst s) = length (lst best)"
    by blast
  from n Suc.prems(1) ls have s: "int (length (lst s)) = n_of p" "0 < length (lst s)" by auto
  from hc_returns [OF nd wf s, of rs k1 fi] obtain lo k0 k2 where
    h: "hc rs k1 s p flip_neighbour_explorer fi = Some (Inr (lo, k2))"
    and llo: "length (lst lo) = length (lst s)"
    and opt: "flip_neighbour_explorer rs k0 lo p fi = Inr (False, lo, k2)" by blast
  let ?best = "if better_or_equal p (fitness lo) (fitness best) then lo else best"
  have d: "d = nat (non_impr_iters - (cnt + 1))" using Suc.hyps(2) by simp
  have len: "int (length (lst ?best)) = n_of p" using Suc.prems(1) llo s by simp
  have lopt: "\<exists>k0 k1. flip_neighbour_explorer rs k0 ?best p fi = Inr (False, ?best, k1)"
    using Suc.prems(2) opt by auto
  have bb: "better_or_equal p (fitness ?best) (fitness best)"
    by (simp add: better_or_equal_refl)
  have bl: "better_or_equal p (fitness ?best) (fitness lo)"
    by (simp add: better_or_equal_refl better_or_equal_total)
  have inv: "\<forall>e\<in>set (log @ [(best, lo)]). better_or_equal p (fitness ?best) (fitness (snd e))"
    using Suc.prems(3) bb bl by (auto intro: better_or_equal_trans)
  from Suc.hyps(1) [OF d len lopt inv, of k2] obtain best' log' k' where
    r: "ils_loop rs p hc flip_neighbour_explorer non_impr_iters fi k2 ?best (cnt + 1)
          (log @ [(best, lo)]) = Some (Inr (best', log', k'))"
    and l: "length log' = length (log @ [(best, lo)]) + nat (non_impr_iters - (cnt + 1))"
    and o: "\<exists>k0 k1. flip_neighbour_explorer rs k0 best' p fi = Inr (False, best', k1)"
    and b: "better_or_equal p (fitness best') (fitness ?best)"
    and a: "\<forall>e\<in>set log'. better_or_equal p (fitness best') (fitness (snd e))"
    by blast
  have "ils_loop rs p hc flip_neighbour_explorer non_impr_iters fi k best cnt log
          = Some (Inr (best', log', k'))"
    by (subst ils_loop.simps) (simp add: lt t h acceptance_cases r)
  moreover have "length log' = length log + nat (non_impr_iters - cnt)"
    using l lt by simp
  moreover have "better_or_equal p (fitness best') (fitness best)"
    using b bb by (rule better_or_equal_trans)
  ultimately show ?case using o a by blast
qed

subsection \<open>The hill climber and local optima\<close>

text \<open>
  Claim C6. For every problem instance that can be constructed (Knapsack and
  NumberPartitioning; the class OneMax cannot be instantiated), every initial solution,
  oracle and mode: on the solution that \<open>hc\<close> returns no single flip is strictly better
  under the comparison of the problem, and the explorer run on it, in either mode and
  under every oracle, reports no improvement and returns it unchanged. \<open>hc\<close> does return
  when the data is well formed and the solution has the length of the problem and is not
  empty.
\<close>

theorem hc_returns_local_optimum:
  assumes "instantiable p"
  shows "(\<forall>s' k'. hc rs k sol p flip_neighbour_explorer first_improvement
                    = Some (Inr (s', k')) \<longrightarrow>
            list_all (no_better p s') [0..<length (lst s')] \<and>
            (\<forall>rs' k2 mode. \<exists>k''.
               flip_neighbour_explorer rs' k2 s' p mode = Inr (False, s', k''))) \<and>
         (well_formed p \<and> int (length (lst sol)) = n_of p \<and> 0 < length (lst sol) \<longrightarrow>
            (\<exists>s' k'. hc rs k sol p flip_neighbour_explorer first_improvement
                       = Some (Inr (s', k'))))"
proof (intro conjI allI impI)
  have nd: "\<not> has_flip_delta_eval p" using assms by (simp add: instantiable_iff)
  {
    fix s' k'
    assume h: "hc rs k sol p flip_neighbour_explorer first_improvement = Some (Inr (s', k'))"
    from hc_fixpoint [OF nd h, of rs k first_improvement]
    show "list_all (no_better p s') [0..<length (lst s')]"
      using flip_neighbour_explorer_no_improvement_iff [OF nd, of rs k s' first_improvement]
      by blast
    fix rs' k2 mode
    from hc_fixpoint [OF nd h, of rs' k2 mode]
    show "\<exists>k''. flip_neighbour_explorer rs' k2 s' p mode = Inr (False, s', k'')" .
  next
    assume "well_formed p \<and> int (length (lst sol)) = n_of p \<and> 0 < length (lst sol)"
    then show "\<exists>s' k'. hc rs k sol p flip_neighbour_explorer first_improvement
                        = Some (Inr (s', k'))"
      using hc_returns [OF nd, of sol rs k first_improvement] by blast
  }
qed

theorem hc_returns_local_optimum_witness:
  "instantiable (NumberPartitioning 2 [3, 5]) \<and>
   hc id 0 \<lparr>lst = [0, 0], fitness = 8, invalid = False, weight = None\<rparr>
       (NumberPartitioning 2 [3, 5]) flip_neighbour_explorer True
     = Some (Inr (\<lparr>lst = [0, 1], fitness = 2, invalid = False, weight = None\<rparr>, 2)) \<and>
   list_all (no_better (NumberPartitioning 2 [3, 5])
               \<lparr>lst = [0, 1], fitness = 2, invalid = False, weight = None\<rparr>)
     [0..<length (lst \<lparr>lst = [0, 1], fitness = 2, invalid = False, weight = None\<rparr>)] \<and>
   (\<exists>k''. flip_neighbour_explorer id 0
             \<lparr>lst = [0, 1], fitness = 2, invalid = False, weight = None\<rparr>
             (NumberPartitioning 2 [3, 5]) False
           = Inr (False, \<lparr>lst = [0, 1], fitness = 2, invalid = False, weight = None\<rparr>, k''))"
proof -
  have i: "instantiable (NumberPartitioning 2 [3, 5])"
    by (simp add: instantiable_def abstract_methods_def)
  have e1: "flip_neighbour_explorer id 0
              \<lparr>lst = [0, 0], fitness = 8, invalid = False, weight = None\<rparr>
              (NumberPartitioning 2 [3, 5]) True
            = Inr (True, \<lparr>lst = [0, 1], fitness = 2, invalid = False, weight = None\<rparr>, 1)"
    by (simp add: flip_neighbour_explorer_def py_get_def shuffle_def flip_at_def
        NumberPartitioning_full_eval_def NumberPartitioning_cost_def strictly_better_def upt_rec)
  have e2: "flip_neighbour_explorer id 1
              \<lparr>lst = [0, 1], fitness = 2, invalid = False, weight = None\<rparr>
              (NumberPartitioning 2 [3, 5]) True
            = Inr (False, \<lparr>lst = [0, 1], fitness = 2, invalid = False, weight = None\<rparr>, 2)"
    by (simp add: flip_neighbour_explorer_def py_get_def shuffle_def flip_at_def
        NumberPartitioning_full_eval_def NumberPartitioning_cost_def strictly_better_def upt_rec)
  have h2: "hc id (Suc 0) \<lparr>lst = [0, 1], fitness = 2, invalid = False, weight = None\<rparr>
              (NumberPartitioning 2 [3, 5]) flip_neighbour_explorer True
            = Some (Inr (\<lparr>lst = [0, 1], fitness = 2, invalid = False, weight = None\<rparr>, 2))"
    using e2 by (subst hc.simps) simp
  have h: "hc id 0 \<lparr>lst = [0, 0], fitness = 8, invalid = False, weight = None\<rparr>
             (NumberPartitioning 2 [3, 5]) flip_neighbour_explorer True
           = Some (Inr (\<lparr>lst = [0, 1], fitness = 2, invalid = False, weight = None\<rparr>, 2))"
    using e1 h2 by (subst hc.simps) simp
  from hc_returns_local_optimum [OF i, where rs = id and k = 0
      and sol = "\<lparr>lst = [0, 0], fitness = 8, invalid = False, weight = None\<rparr>"
      and first_improvement = True] h
  have "list_all (no_better (NumberPartitioning 2 [3, 5])
               \<lparr>lst = [0, 1], fitness = 2, invalid = False, weight = None\<rparr>)
          [0..<length (lst \<lparr>lst = [0, 1], fitness = 2, invalid = False, weight = None\<rparr>)] \<and>
        (\<exists>k''. flip_neighbour_explorer id 0
             \<lparr>lst = [0, 1], fitness = 2, invalid = False, weight = None\<rparr>
             (NumberPartitioning 2 [3, 5]) False
           = Inr (False, \<lparr>lst = [0, 1], fitness = 2, invalid = False, weight = None\<rparr>, k''))"
    by blast
  with i h show ?thesis by blast
qed

subsection \<open>Termination of ils\<close>

text \<open>
  Claim C7, as stated: \<open>ils\<close> terminates for every initial solution, problem instance
  and budget. For a problem of dimension 1 the loop of \<open>two_rnd_flips\<close> draws position 0
  forever: on the NumberPartitioning instance with the single magnitude 1, the evaluated
  solution \<open>[0]\<close> and budget 1, \<open>ils\<close> does not return, under any oracle.
\<close>

theorem ils_one_position_never_returns:
  "instantiable (NumberPartitioning 1 [1]) \<and> well_formed (NumberPartitioning 1 [1]) \<and>
   full_eval (NumberPartitioning 1 [1]) \<lparr>lst = [0], fitness = 1, invalid = False, weight = None\<rparr>
     = Inr \<lparr>lst = [0], fitness = 1, invalid = False, weight = None\<rparr> \<and>
   ils id 0 \<lparr>lst = [0], fitness = 1, invalid = False, weight = None\<rparr> (NumberPartitioning 1 [1])
     hc flip_neighbour_explorer 1 True = None"
proof -
  have h: "hc id 0 \<lparr>lst = [0], fitness = 1, invalid = False, weight = None\<rparr>
             (NumberPartitioning 1 [1]) flip_neighbour_explorer True
           = Some (Inr (\<lparr>lst = [0], fitness = 1, invalid = False, weight = None\<rparr>, 0))"
    by (subst hc.simps)
       (simp add: flip_neighbour_explorer_def py_get_def shuffle_def flip_at_def
        NumberPartitioning_full_eval_def NumberPartitioning_cost_def strictly_better_def upt_rec)
  have "ils_loop id (NumberPartitioning 1 [1]) hc flip_neighbour_explorer 1 True 0
          \<lparr>lst = [0], fitness = 1, invalid = False, weight = None\<rparr> 0 [] = None"
    by (subst ils_loop.simps) (simp add: two_rnd_flips_stuck)
  then show ?thesis
    by (simp add: ils_def h instantiable_def abstract_methods_def
        NumberPartitioning_full_eval_def NumberPartitioning_cost_def py_get_def upt_rec)
qed

text \<open>
  Claim C7, amended: for a Knapsack or NumberPartitioning instance with well-formed data
  and dimension \<open>n \<ge> 2\<close>, an initial solution of length \<open>n\<close>, a non-negative budget
  \<open>non_impr_iters\<close>, either mode and a fair oracle, \<open>ils\<close> returns. The loop body has run
  exactly \<open>non_impr_iters\<close> times (one log entry each), so at most \<open>non_impr_iters + 1\<close>
  times; the solution returned is one on which the explorer reports no improvement, and
  it is at least as good as every local optimum logged.
\<close>

theorem ils_terminates:
  assumes "instantiable p" and "well_formed p" and "2 \<le> n_of p"
    and "int (length (lst sol)) = n_of p" and "0 \<le> non_impr_iters" and "fair rs (n_of p)"
  shows "\<exists>best log k'.
           ils rs k sol p hc flip_neighbour_explorer non_impr_iters first_improvement
             = Some (Inr (best, log, k')) \<and>
           int (length log) = non_impr_iters \<and>
           int (length log) \<le> non_impr_iters + 1 \<and>
           (\<exists>k0 k1. flip_neighbour_explorer rs k0 best p first_improvement
                      = Inr (False, best, k1)) \<and>
           (\<forall>e\<in>set log. better_or_equal p (fitness best) (fitness (snd e)))"
proof -
  have nd: "\<not> has_flip_delta_eval p" using assms(1) by (simp add: instantiable_iff)
  from assms(3,4) have pos: "0 < length (lst sol)" by auto
  from hc_returns [OF nd assms(2,4) pos, of rs k first_improvement] obtain lo k0 k1 where
    h: "hc rs k sol p flip_neighbour_explorer first_improvement = Some (Inr (lo, k1))"
    and l: "length (lst lo) = length (lst sol)"
    and o: "flip_neighbour_explorer rs k0 lo p first_improvement = Inr (False, lo, k1)" by blast
  have len: "int (length (lst lo)) = n_of p" using l assms(4) by simp
  have lopt: "\<exists>k0 k1. flip_neighbour_explorer rs k0 lo p first_improvement = Inr (False, lo, k1)"
    using o by blast
  have e: "\<forall>e\<in>set []. better_or_equal p (fitness lo) (fitness (snd e))" by simp
  from ils_loop_returns [OF nd assms(2,3,6) len lopt e, of non_impr_iters k1 0]
  obtain best log k' where
    r: "ils_loop rs p hc flip_neighbour_explorer non_impr_iters first_improvement k1 lo 0 []
          = Some (Inr (best, log, k'))"
    and n: "length log = length ([]::(solution \<times> solution) list) + nat (non_impr_iters - 0)"
    and b: "\<exists>k0 k1. flip_neighbour_explorer rs k0 best p first_improvement
                      = Inr (False, best, k1)"
    and a: "\<forall>e\<in>set log. better_or_equal p (fitness best) (fitness (snd e))" by blast
  have "ils rs k sol p hc flip_neighbour_explorer non_impr_iters first_improvement
          = Some (Inr (best, log, k'))"
    by (simp add: ils_def h r)
  moreover have "int (length log) = non_impr_iters" using n assms(5) by simp
  ultimately show ?thesis using b a by auto
qed

theorem ils_terminates_witness:
  "instantiable (NumberPartitioning 2 [3, 5]) \<and> well_formed (NumberPartitioning 2 [3, 5]) \<and>
   2 \<le> n_of (NumberPartitioning 2 [3, 5]) \<and>
   int (length (lst \<lparr>lst = [0, 0], fitness = 8, invalid = False, weight = None\<rparr>))
     = n_of (NumberPartitioning 2 [3, 5]) \<and>
   (0::int) \<le> 3 \<and> fair id (n_of (NumberPartitioning 2 [3, 5])) \<and>
   (\<exists>best log k'.
      ils id 0 \<lparr>lst = [0, 0], fitness = 8, invalid = False, weight = None\<rparr>
          (NumberPartitioning 2 [3, 5]) hc flip_neighbour_explorer 3 False
        = Some (Inr (best, log, k')) \<and>
      int (length log) = 3)"
proof -
  have i: "instantiable (NumberPartitioning 2 [3, 5])"
    by (simp add: instantiable_def abstract_methods_def)
  have w: "well_formed (NumberPartitioning 2 [3, 5])" by simp
  have n: "2 \<le> n_of (NumberPartitioning 2 [3, 5])" by simp
  have l: "int (length (lst \<lparr>lst = [0, 0], fitness = 8, invalid = False, weight = None\<rparr>))
             = n_of (NumberPartitioning 2 [3, 5])" by simp
  have b: "(0::int) \<le> 3" by simp
  have f: "fair id (n_of (NumberPartitioning 2 [3, 5]))" using fair_id_2 by simp
  from ils_terminates [OF i w n l b f, where k = 0 and first_improvement = False]
    i w n l b f show ?thesis by blast
qed

subsection \<open>two_rnd_flips\<close>

text \<open>
  The three methods \<open>two_rnd_flips\<close>: whenever one returns, it has flipped two distinct
  positions below \<open>n\<close>, \<open>invalid\<close> is false and the fitness is the one \<open>full_eval\<close>
  computes for the modified values. The method of OneMax adds the two deltas to the fitness
  it finds, so there the input is taken to be an evaluated bitstring.
\<close>

lemma two_rnd_flips_any_variant:
  assumes ev: "has_flip_delta_eval p \<Longrightarrow>
               set (lst sol) \<subseteq> {0, 1} \<and> fitness sol = sum_list (lst sol)"
  shows "(\<forall>s' k'. two_rnd_flips rs k p sol = Some (Inr (s', k')) \<longrightarrow>
            (\<exists>i j. i \<noteq> j \<and> i < length (lst sol) \<and> j < length (lst sol) \<and>
                   int i < n_of p \<and> int j < n_of p \<and>
                   lst s' = flip2 (lst sol) i j \<and> invalid s' = False \<and>
                   full_eval p s' = Inr s')) \<and>
         (well_formed p \<and> int (length (lst sol)) = n_of p \<and> 2 \<le> n_of p \<and>
          (\<exists>m>k. rs m mod nat (n_of p) \<noteq> rs k mod nat (n_of p)) \<longrightarrow>
            (\<exists>s' k'. two_rnd_flips rs k p sol = Some (Inr (s', k'))))"
proof (intro conjI allI impI)
  fix s' k'
  assume r: "two_rnd_flips rs k p sol = Some (Inr (s', k'))"
  from r obtain i j where
    d: "draw_two rs k (n_of p) = Some (Inr (i, j, k'))" and a: "apply_two_flips p sol i j = Inr s'"
    by (auto simp: two_rnd_flips_def split: option.splits sum.splits)
  from draw_two_distinct [OF d] have ij: "i \<noteq> j" "int i < n_of p" "int j < n_of p" by simp_all
  note res = apply_two_flips_result [OF a ij(1)]
  have "full_eval p s' = Inr s'"
  proof (cases "has_flip_delta_eval p")
    case False
    with res have "full_eval p (sol\<lparr>lst := flip2 (lst sol) i j\<rparr>) = Inr s'" by simp
    then show ?thesis by (rule full_eval_idem)
  next
    case True
    then obtain n where p: "p = OneMax n" by (cases p) simp_all
    from ev [OF True] res True sum_list_flip2_bits [of "lst sol" i j] ij(1)
    have "fitness s' = sum_list (lst s')" by simp
    with res p show ?thesis by (simp add: OneMax_full_eval_def)
  qed
  with res ij
  show "\<exists>i j. i \<noteq> j \<and> i < length (lst sol) \<and> j < length (lst sol) \<and>
              int i < n_of p \<and> int j < n_of p \<and>
              lst s' = flip2 (lst sol) i j \<and> invalid s' = False \<and> full_eval p s' = Inr s'"
    by blast
next
  assume "well_formed p \<and> int (length (lst sol)) = n_of p \<and> 2 \<le> n_of p \<and>
          (\<exists>m>k. rs m mod nat (n_of p) \<noteq> rs k mod nat (n_of p))"
  then show "\<exists>s' k'. two_rnd_flips rs k p sol = Some (Inr (s', k'))"
    using two_rnd_flips_returns [of p sol k rs] by blast
qed

text \<open>
  Claim C9. For every problem instance that can be constructed (Knapsack and
  NumberPartitioning; the class OneMax cannot be instantiated) and every solution, whatever
  its fitness and its \<open>invalid\<close> flag: whenever \<open>two_rnd_flips\<close> returns, it has flipped two
  distinct positions below \<open>n\<close>, \<open>invalid\<close> is false and the fitness is the one \<open>full_eval\<close>
  computes for the modified values. It does return when the data is well formed, the
  solution has length \<open>n \<ge> 2\<close> and some later draw differs from the first.
\<close>

theorem two_rnd_flips_distinct_and_evaluated:
  assumes "instantiable p"
  shows "(\<forall>s' k'. two_rnd_flips rs k p sol = Some (Inr (s', k')) \<longrightarrow>
            (\<exists>i j. i \<noteq> j \<and> i < length (lst sol) \<and> j < length (lst sol) \<and>
                   int i < n_of p \<and> int j < n_of p \<and>
                   lst s' = flip2 (lst sol) i j \<and> invalid s' = False \<and>
                   full_eval p s' = Inr s')) \<and>
         (well_formed p \<and> int (length (lst sol)) = n_of p \<and> 2 \<le> n_of p \<and>
          (\<exists>m>k. rs m mod nat (n_of p) \<noteq> rs k mod nat (n_of p)) \<longrightarrow>
            (\<exists>s' k'. two_rnd_flips rs k p sol = Some (Inr (s', k'))))"
proof -
  have "\<not> has_flip_delta_eval p" using assms by (simp add: instantiable_iff)
  then have "has_flip_delta_eval p \<Longrightarrow>
      set (lst sol) \<subseteq> {0, 1} \<and> fitness sol = sum_list (lst sol)" by simp
  then show ?thesis by (rule two_rnd_flips_any_variant)
qed

theorem two_rnd_flips_distinct_and_evaluated_witness:
  "instantiable (NumberPartitioning 2 [3, 5]) \<and>
   two_rnd_flips id 0 (NumberPartitioning 2 [3, 5])
       \<lparr>lst = [0, 0], fitness = 0, invalid = True, weight = None\<rparr>
     = Some (Inr (\<lparr>lst = [1, 1], fitness = 8, invalid = False, weight = None\<rparr>, 2)) \<and>
   full_eval (NumberPartitioning 2 [3, 5])
       \<lparr>lst = [1, 1], fitness = 8, invalid = False, weight = None\<rparr>
     = Inr \<lparr>lst = [1, 1], fitness = 8, invalid = False, weight = None\<rparr>"
proof -
  have i: "instantiable (NumberPartitioning 2 [3, 5])"
    by (simp add: instantiable_def abstract_methods_def)
  have r: "two_rnd_flips id 0 (NumberPartitioning 2 [3, 5])
             \<lparr>lst = [0, 0], fitness = 0, invalid = True, weight = None\<rparr>
           = Some (Inr (\<lparr>lst = [1, 1], fitness = 8, invalid = False, weight = None\<rparr>, 2))"
    by (simp add: two_rnd_flips_def draw_two_def randint_def redraw_again redraw_leave
        full_eval_two_flips_def py_get_def flip_at_def
        NumberPartitioning_full_eval_def NumberPartitioning_cost_def upt_rec)
  from two_rnd_flips_distinct_and_evaluated [OF i, where rs = id and k = 0
      and sol = "\<lparr>lst = [0, 0], fitness = 0, invalid = True, weight = None\<rparr>"] r
  have "full_eval (NumberPartitioning 2 [3, 5])
          \<lparr>lst = [1, 1], fitness = 8, invalid = False, weight = None\<rparr>
        = Inr \<lparr>lst = [1, 1], fitness = 8, invalid = False, weight = None\<rparr>"
    by blast
  with i r show ?thesis by simp
qed

subsection \<open>First improvement never worsens\<close>

text \<open>
  Claim C10. For every problem instance that can be constructed (Knapsack and
  NumberPartitioning; the class OneMax cannot be instantiated) and every input solution,
  whatever the explorer returns in first-improvement mode has a fitness at least as good
  as the input's fitness under \<open>better_or_equal\<close>. It does return when the data is well
  formed and the solution has the length of the problem and is not empty.
\<close>

theorem first_improvement_never_worsens:
  assumes "instantiable p"
  shows "(\<forall>imp s' k'. flip_neighbour_explorer rs k sol p True = Inr (imp, s', k') \<longrightarrow>
            better_or_equal p (fitness s') (fitness sol)) \<and>
         (well_formed p \<and> int (length (lst sol)) = n_of p \<and> 0 < length (lst sol) \<longrightarrow>
            (\<exists>imp s' k'. flip_neighbour_explorer rs k sol p True = Inr (imp, s', k')))"
proof (intro conjI allI impI)
  have nd: "\<not> has_flip_delta_eval p" using assms by (simp add: instantiable_iff)
  {
    fix imp s' k'
    assume "flip_neighbour_explorer rs k sol p True = Inr (imp, s', k')"
    from flip_neighbour_explorer_full [OF nd this]
    show "better_or_equal p (fitness s') (fitness sol)"
      by (cases imp)
         (simp_all add: strictly_better_imp_better_or_equal better_or_equal_refl)
  next
    assume "well_formed p \<and> int (length (lst sol)) = n_of p \<and> 0 < length (lst sol)"
    then show "\<exists>imp s' k'. flip_neighbour_explorer rs k sol p True = Inr (imp, s', k')"
      using flip_neighbour_explorer_total [OF nd, of sol rs k True] by blast
  }
qed

theorem first_improvement_never_worsens_witness:
  "instantiable (NumberPartitioning 2 [3, 5]) \<and>
   flip_neighbour_explorer id 0 \<lparr>lst = [0, 0], fitness = 8, invalid = False, weight = None\<rparr>
       (NumberPartitioning 2 [3, 5]) True
     = Inr (True, \<lparr>lst = [0, 1], fitness = 2, invalid = False, weight = None\<rparr>, 1) \<and>
   better_or_equal (NumberPartitioning 2 [3, 5])
     (fitness \<lparr>lst = [0, 1], fitness = 2, invalid = False, weight = None\<rparr>)
     (fitness \<lparr>lst = [0, 0], fitness = 8, invalid = False, weight = None\<rparr>)"
proof -
  have i: "instantiable (NumberPartitioning 2 [3, 5])"
    by (simp add: instantiable_def abstract_methods_def)
  have e: "flip_neighbour_explorer id 0
             \<lparr>lst = [0, 0], fitness = 8, invalid = False, weight = None\<rparr>
             (NumberPartitioning 2 [3, 5]) True
           = Inr (True, \<lparr>lst = [0, 1], fitness = 2, invalid = False, weight = None\<rparr>, 1)"
    by (simp add: flip_neighbour_explorer_def py_get_def shuffle_def flip_at_def
        NumberPartitioning_full_eval_def NumberPartitioning_cost_def strictly_better_def upt_rec)
  from first_improvement_never_worsens [OF i, where rs = id and k = 0
      and sol = "\<lparr>lst = [0, 0], fitness = 8, invalid = False, weight = None\<rparr>"] e
  have "better_or_equal (NumberPartitioning 2 [3, 5])
     (fitness \<lparr>lst = [0, 1], fitness = 2, invalid = False, weight = None\<rparr>)
     (fitness \<lparr>lst = [0, 0], fitness = 8, invalid = False, weight = None\<rparr>)"
    by blast
  with i e show ?thesis by simp
qed

end
